theory Spec2Isabelle
  imports Main "HOL-Library.Word"
begin

unbundle bit_operations_syntax

section \<open>Common types\<close>

type_synonym u8 = "8 word"
type_synonym u16 = "16 word"
type_synonym u32 = "32 word"

text \<open>
  A \<open>GError\<close> is a code, the message's format string and the values printed into
  it. \<open>BUS_FAILURE\<close> stands for whatever error a bus primitive of libfwupdplugin
  or GUsb sets when it fails, \<open>G_RETURN_IF_FAIL\<close> for the \<open>FALSE\<close> a
  \<open>g_return_val_if_fail\<close> returns without setting an error, and
  \<open>NO_ERROR_SET\<close> for any other \<open>FALSE\<close> returned with no error set. The
  last two are not errors of the program but ways it can leave C's defined behaviour: a
  read outside a buffer and a dereferenced \<open>NULL\<close>.
\<close>

datatype error_code =
    FWUPD_ERROR_INTERNAL
  | FWUPD_ERROR_NOT_SUPPORTED
  | FWUPD_ERROR_WRITE
  | G_IO_ERROR_TIMED_OUT
  | G_RETURN_IF_FAIL
  | BUS_FAILURE
  | NO_ERROR_SET
  | READ_PAST_BUFFER
  | NULL_DEREFERENCE

datatype error = Err error_code string "nat list"

fun g_prefix_error :: "string \<Rightarrow> nat list \<Rightarrow> error \<Rightarrow> error" where
  "g_prefix_error p ps (Err c m as) = Err c (p @ m) (ps @ as)"

fun error_code_of :: "error \<Rightarrow> error_code" where
  "error_code_of (Err c m as) = c"

fun error_message :: "error \<Rightarrow> string" where
  "error_message (Err c m as) = m"

fun error_values :: "error \<Rightarrow> nat list" where
  "error_values (Err c m as) = as"

datatype fwupd_status =
    FWUPD_STATUS_DEVICE_ERASE
  | FWUPD_STATUS_DEVICE_WRITE
  | FWUPD_STATUS_DEVICE_VERIFY
  | FWUPD_STATUS_DEVICE_RESTART

section \<open>Parade LSPCON (src/unnamed/part_001)\<close>

subsection \<open>Registers and constants\<close>

definition I2C_ADDR_PAGE2 :: u8 where [simp]: "I2C_ADDR_PAGE2 = 0x4a"
definition I2C_ADDR_PAGE5 :: u8 where [simp]: "I2C_ADDR_PAGE5 = 0x4d"
definition I2C_ADDR_PAGE7 :: u8 where [simp]: "I2C_ADDR_PAGE7 = 0x4f"
definition REG_ADDR_CLT2SPI :: u8 where [simp]: "REG_ADDR_CLT2SPI = 0x82"
definition REG_ADDR_FLASH_ADDR_LO :: u8 where [simp]: "REG_ADDR_FLASH_ADDR_LO = 0x8e"
definition REG_ADDR_FLASH_ADDR_HI :: u8 where [simp]: "REG_ADDR_FLASH_ADDR_HI = 0x8f"
definition REG_ADDR_WR_FIFO :: u8 where [simp]: "REG_ADDR_WR_FIFO = 0x90"
definition REG_ADDR_RD_FIFO :: u8 where [simp]: "REG_ADDR_RD_FIFO = 0x91"
definition REG_ADDR_SPI_LEN :: u8 where [simp]: "REG_ADDR_SPI_LEN = 0x92"
definition REG_ADDR_SPI_CTL :: u8 where [simp]: "REG_ADDR_SPI_CTL = 0x93"
definition SPI_CTL_NOREAD :: u8 where [simp]: "SPI_CTL_NOREAD = 0x04"
definition SPI_CTL_TRIGGER :: u8 where [simp]: "SPI_CTL_TRIGGER = 0x01"
definition REG_ADDR_SPI_STATUS :: u8 where [simp]: "REG_ADDR_SPI_STATUS = 0x9e"
definition SPI_STATUS_SE_MASK :: u8 where [simp]: "SPI_STATUS_SE_MASK = 0x0c"
definition REG_ADDR_WR_PROTECT :: u8 where [simp]: "REG_ADDR_WR_PROTECT = 0xb3"
definition WR_PROTECT_DISABLE :: u8 where [simp]: "WR_PROTECT_DISABLE = 0x10"
definition REG_ADDR_MPU :: u8 where [simp]: "REG_ADDR_MPU = 0xbc"
definition REG_ADDR_MAP_WRITE :: u8 where [simp]: "REG_ADDR_MAP_WRITE = 0xda"
definition REG_ADDR_ACTIVE_PARTITION :: u8 where [simp]: "REG_ADDR_ACTIVE_PARTITION = 0x0e"
definition FLASH_BLOCK_SIZE :: nat where [simp]: "FLASH_BLOCK_SIZE = 0x10000"
definition G_TIME_SPAN_MILLISECOND :: nat where [simp]: "G_TIME_SPAN_MILLISECOND = 1000"

subsection \<open>The device and its environment\<close>

text \<open>
  The bus, the clock and udev are outside the program. Every call to one of them takes
  the next reply off a tape; a tape that has run out answers \<open>Fail\<close> from then on,
  so a finite tape is an environment in which every later call fails. \<open>Done\<close>
  answers an ioctl or a write, \<open>Got bs\<close> a read, \<open>Elapsed us\<close> a reading of a
  \<open>GTimer\<close> in microseconds since it was created, \<open>Found n\<close> a udev enumeration
  that matched \<open>n\<close> devices. A reply of the wrong kind counts as a failed call (for
  the clock: as a deadline that has passed).

  What the program does to the outside world is recorded in \<open>trace\<close>, newest event
  first. An \<open>I2cWrite\<close> or \<open>I2cRead\<close> carries the slave address bound to the file
  descriptor at that moment.
\<close>

datatype reply = Fail | Done | Got "u8 list" | Elapsed nat | Found nat

datatype event =
    Ioctl u8 bool
  | I2cWrite u8 "u8 list" bool
  | I2cRead u8 nat "u8 list option"
  | AuxRead nat nat "u8 list option"
  | Sleep nat
  | Status fwupd_status
  | Progress nat nat

record lspcon =
  active_partition :: u8
  aux_device_name :: "string option"
  version :: "string option"
  i2c_addr :: u8
  tape :: "reply list"
  trace :: "event list"

type_synonym 'a io = "lspcon \<Rightarrow> (error + 'a) \<times> lspcon"

definition next_reply :: "lspcon \<Rightarrow> reply \<times> lspcon" where
  "next_reply s = (case tape s of [] \<Rightarrow> (Fail, s) | r # rs \<Rightarrow> (r, s\<lparr>tape := rs\<rparr>))"

definition emit :: "event \<Rightarrow> lspcon \<Rightarrow> lspcon" where
  "emit e s = s\<lparr>trace := e # trace s\<rparr>"

text \<open>\<open>if (!m (..., error)) return FALSE;\<close> followed by the rest of the function.\<close>

definition and_then ::
  "('s \<Rightarrow> (error + 'a) \<times> 's) \<Rightarrow> ('a \<Rightarrow> 's \<Rightarrow> (error + 'b) \<times> 's) \<Rightarrow>
   's \<Rightarrow> (error + 'b) \<times> 's" where
  "and_then m f s = (case m s of (Inl e, s') \<Rightarrow> (Inl e, s') | (Inr x, s') \<Rightarrow> f x s')"

definition fail_with :: "error \<Rightarrow> 's \<Rightarrow> (error + 'a) \<times> 's" where
  "fail_with e s = (Inl e, s)"

definition succeed :: "'a \<Rightarrow> 's \<Rightarrow> (error + 'a) \<times> 's" where
  "succeed x s = (Inr x, s)"

subsection \<open>Bus primitives\<close>

text \<open>
  Modelled from the spec: \<open>fu_udev_device_ioctl\<close>, \<open>fu_i2c_device_write_full\<close>,
  \<open>fu_i2c_device_write\<close>, \<open>fu_i2c_device_read\<close>, \<open>fu_i2c_device_read_full\<close>,
  \<open>g_timer_elapsed\<close>, \<open>g_usleep\<close> and the progress sink are library calls whose code
  is not among the sources; the spec's section 6 gives them as fallible primitives
  (\<open>ioctl_select_address\<close>, \<open>register_write\<close>, \<open>register_read\<close>). A successful
  \<open>I2C_SLAVE\<close> ioctl binds the address; a failed one leaves the binding as it was.
\<close>

definition fu_udev_device_ioctl_I2C_SLAVE :: "u8 \<Rightarrow> unit io" where
  "fu_udev_device_ioctl_I2C_SLAVE a s =
     (case next_reply s of
        (Done, s') \<Rightarrow> (Inr (), emit (Ioctl a True) (s'\<lparr>i2c_addr := a\<rparr>))
      | (_, s') \<Rightarrow> (Inl (Err BUS_FAILURE ''ioctl'' []), emit (Ioctl a False) s'))"

definition fu_i2c_device_write_full :: "u8 list \<Rightarrow> unit io" where
  "fu_i2c_device_write_full buf s =
     (case next_reply s of
        (Done, s') \<Rightarrow> (Inr (), emit (I2cWrite (i2c_addr s') buf True) s')
      | (_, s') \<Rightarrow> (Inl (Err BUS_FAILURE ''i2c write'' []), emit (I2cWrite (i2c_addr s') buf False) s'))"

definition fu_i2c_device_write :: "u8 \<Rightarrow> unit io" where
  "fu_i2c_device_write b = fu_i2c_device_write_full [b]"

definition fu_i2c_device_read_full :: "nat \<Rightarrow> (u8 list) io" where
  "fu_i2c_device_read_full n s =
     (case next_reply s of
        (Got bs, s') \<Rightarrow>
          if length bs = n then (Inr bs, emit (I2cRead (i2c_addr s') n (Some bs)) s')
          else (Inl (Err BUS_FAILURE ''i2c read'' []), emit (I2cRead (i2c_addr s') n None) s')
      | (_, s') \<Rightarrow> (Inl (Err BUS_FAILURE ''i2c read'' []), emit (I2cRead (i2c_addr s') n None) s'))"

definition fu_i2c_device_read :: "u8 io" where
  "fu_i2c_device_read = and_then (fu_i2c_device_read_full 1) (\<lambda>bs. succeed (hd bs))"

text \<open>\<open>g_timer_elapsed (timer, NULL) <= limit\<close>, the limit in microseconds.\<close>

definition g_timer_elapsed_le :: "nat \<Rightarrow> lspcon \<Rightarrow> bool \<times> lspcon" where
  "g_timer_elapsed_le limit s =
     (case next_reply s of (Elapsed us, s') \<Rightarrow> (us \<le> limit, s') | (_, s') \<Rightarrow> (False, s'))"

definition g_usleep :: "nat \<Rightarrow> unit io" where
  "g_usleep us s = (Inr (), emit (Sleep us) s)"

definition fu_device_set_status :: "fwupd_status \<Rightarrow> unit io" where
  "fu_device_set_status st s = (Inr (), emit (Status st) s)"

definition fu_device_set_progress_full :: "nat \<Rightarrow> nat \<Rightarrow> unit io" where
  "fu_device_set_progress_full n tot s = (Inr (), emit (Progress n tot) s)"

subsection \<open>Address guard and register access\<close>

definition ensure_i2c_address :: "u8 \<Rightarrow> unit io" where
  "ensure_i2c_address address s =
     (case fu_udev_device_ioctl_I2C_SLAVE address s of
        (Inl e, s') \<Rightarrow> (Inl (g_prefix_error ''failed to set I2C slave address: '' [] e), s')
      | (Inr u, s') \<Rightarrow> (Inr (), s'))"

text \<open>\<open>i2c_address_guard_new\<close> returns the guard, or \<open>NULL\<close> (here \<open>Inl\<close>).\<close>

definition i2c_address_guard_new :: "u8 \<Rightarrow> unit io" where
  "i2c_address_guard_new new_address = ensure_i2c_address new_address"

text \<open>
  \<open>i2c_address_guard_dispose\<close> passes \<open>NULL\<close> for the error and drops the result
  of \<open>ensure_i2c_address\<close>.
\<close>

definition i2c_address_guard_dispose :: "lspcon \<Rightarrow> lspcon" where
  "i2c_address_guard_dispose s = snd (ensure_i2c_address I2C_ADDR_PAGE2 s)"

definition lspcon_write_register :: "u8 \<Rightarrow> u8 \<Rightarrow> unit io" where
  "lspcon_write_register register_addr v = fu_i2c_device_write_full [register_addr, v]"

definition lspcon_read_register :: "u8 \<Rightarrow> u8 io" where
  "lspcon_read_register register_addr =
     and_then (fu_i2c_device_write register_addr) (\<lambda>_. fu_i2c_device_read)"

definition lspcon_map_page :: "u32 \<Rightarrow> unit io" where
  "lspcon_map_page address =
     and_then (lspcon_write_register REG_ADDR_FLASH_ADDR_HI (ucast (drop_bit 16 address)))
       (\<lambda>_. lspcon_write_register REG_ADDR_FLASH_ADDR_LO (ucast (drop_bit 8 address)))"

subsection \<open>Polling\<close>

text \<open>
  \<open>lspcon_poll_register\<close>: the \<open>do ... while (g_timer_elapsed (timer, NULL) <= 10.0)\<close>
  loop. The clock is read only after a read that did not match. The message's values
  are the register, the expected value, the mask and the value read last.
\<close>

definition poll_timeout_error :: "u8 \<Rightarrow> u8 \<Rightarrow> u8 \<Rightarrow> u8 \<Rightarrow> error" where
  "poll_timeout_error register_address msk expected v =
     Err G_IO_ERROR_TIMED_OUT
       ''register %x did not read %x (mask %x) within 10 seconds: read %x''
       [unat register_address, unat expected, unat msk, unat v]"

lemma next_reply_tape_le: "next_reply s = (r, s') \<Longrightarrow> length (tape s') \<le> length (tape s)"
  by (auto simp: next_reply_def split: list.splits)

lemma fu_i2c_device_write_full_tape_le:
  "fu_i2c_device_write_full buf s = (r, s') \<Longrightarrow> length (tape s') \<le> length (tape s)"
  by (auto simp: fu_i2c_device_write_full_def next_reply_def emit_def
      split: list.splits reply.splits)

lemma fu_i2c_device_read_full_tape_less:
  "fu_i2c_device_read_full n s = (Inr bs, s') \<Longrightarrow> length (tape s') < length (tape s)"
  by (auto simp: fu_i2c_device_read_full_def next_reply_def emit_def
      split: list.splits reply.splits if_splits)

lemma lspcon_read_register_tape_less:
  "lspcon_read_register reg s = (Inr v, s') \<Longrightarrow> length (tape s') < length (tape s)"
  unfolding lspcon_read_register_def fu_i2c_device_read_def fu_i2c_device_write_def
    and_then_def succeed_def
  by (auto split: prod.splits sum.splits
      dest!: fu_i2c_device_write_full_tape_le fu_i2c_device_read_full_tape_less)

lemma g_timer_elapsed_le_tape_le:
  "g_timer_elapsed_le limit s = (b, s') \<Longrightarrow> length (tape s') \<le> length (tape s)"
  by (auto simp: g_timer_elapsed_le_def next_reply_def split: list.splits reply.splits)

function lspcon_poll_register :: "u8 \<Rightarrow> u8 \<Rightarrow> u8 \<Rightarrow> unit io" where
  "lspcon_poll_register register_address msk expected s =
     (case lspcon_read_register register_address s of
        (Inl e, s1) \<Rightarrow> (Inl e, s1)
      | (Inr v, s1) \<Rightarrow>
          if v AND msk = expected then (Inr (), s1)
          else (case g_timer_elapsed_le 10000000 s1 of
                  (True, s2) \<Rightarrow> lspcon_poll_register register_address msk expected s2
                | (False, s2) \<Rightarrow>
                    (Inl (poll_timeout_error register_address msk expected v), s2)))"
  by pat_completeness auto
termination
proof (relation "measure (\<lambda>(r, m, e, s). length (tape s))")
  show "wf (measure (\<lambda>(r, m, e, s). length (tape s)))" by simp
next
  fix register_address msk expected :: u8 and s x1 s1 v x2 s2
  assume "(x1, s1) = lspcon_read_register register_address s" "x1 = Inr v"
    "(x2, s2) = g_timer_elapsed_le 10000000 s1"
  then have "length (tape s1) < length (tape s)" "length (tape s2) \<le> length (tape s1)"
    using lspcon_read_register_tape_less [of register_address s v s1]
      g_timer_elapsed_le_tape_le [of 10000000 s1 x2 s2] by simp_all
  then show "((register_address, msk, expected, s2), register_address, msk, expected, s)
      \<in> measure (\<lambda>(r, m, e, s). length (tape s))" by simp
qed

declare lspcon_poll_register.simps [simp del]

lemma unat_and_0xFF_less: "unat ((a :: u32) AND 0xFF) < 256"
proof -
  have "unat (a AND 0xFF) \<le> unat (0xFF :: u32)"
    by (rule word_and_le1 [THEN word_le_nat_alt [THEN iffD1]])
  then show ?thesis by simp
qed

subsection \<open>Reading flash through the page-7 window\<close>

text \<open>
  The guarded block of \<open>flash_read\<close>: bind page 7, read the whole window, and
  leave the scope, which disposes of the guard whether the read worked or not.
\<close>

definition flash_read_window :: "(u8 list) io" where
  "flash_read_window s =
     (case i2c_address_guard_new I2C_ADDR_PAGE7 s of
        (Inl e, s1) \<Rightarrow> (Inl e, s1)
      | (Inr guard, s1) \<Rightarrow>
          (case fu_i2c_device_read_full 256 s1 of
             (r, s2) \<Rightarrow> (r, i2c_address_guard_dispose s2)))"

text \<open>
  The \<open>while (len > 0)\<close> loop of \<open>flash_read\<close>. \<open>data\<close> is what has been
  copied into the caller's buffer so far.
\<close>

function flash_read_loop :: "nat \<Rightarrow> u32 \<Rightarrow> u8 list \<Rightarrow> nat \<Rightarrow> (u8 list) io" where
  "flash_read_loop target_len base_address data len s =
     (if len > 0 then
        (let page_data_start = unat (base_address AND 0xFF);
             page_data_take = min len (256 - page_data_start)
         in case and_then (lspcon_map_page base_address) (\<lambda>_. flash_read_window) s of
              (Inl e, s1) \<Rightarrow> (Inl e, s1)
            | (Inr page_data, s1) \<Rightarrow>
                flash_read_loop target_len
                  (base_address + of_nat page_data_take)
                  (data @ take page_data_take (drop page_data_start page_data))
                  (len - page_data_take)
                  (snd (fu_device_set_progress_full
                          (target_len - (len - page_data_take)) target_len s1)))
      else (Inr data, s))"
  by pat_completeness auto
termination
  by (relation "measure (\<lambda>(t, b, d, len, s). len)") (auto simp: unat_and_0xFF_less)

declare flash_read_loop.simps [simp del]

definition flash_read :: "u32 \<Rightarrow> nat \<Rightarrow> (u8 list) io" where
  "flash_read base_address len = flash_read_loop len base_address [] len"

subsection \<open>Invariants of the bus primitives\<close>

text \<open>
  \<open>preserves I m\<close>: running \<open>m\<close> from a state in \<open>I\<close> ends in a state in
  \<open>I\<close>, whatever it returns. \<open>steady W I\<close>: a write of a buffer in \<open>W\<close>, a
  read, a clock reading and a sink event keep \<open>I\<close>, and \<open>W\<close> holds of every
  one- or two-byte register transfer other than a write of \<open>REG_ADDR_FLASH_ADDR_HI\<close>
  (no register of this device has address 0, which is what starts a window write).
  Nothing is said of the ioctl.
\<close>

definition preserves :: "('s \<Rightarrow> bool) \<Rightarrow> ('s \<Rightarrow> (error + 'a) \<times> 's) \<Rightarrow> bool" where
  "preserves I m = (\<forall>s. I s \<longrightarrow> I (snd (m s)))"

definition steady :: "(u8 list \<Rightarrow> bool) \<Rightarrow> (lspcon \<Rightarrow> bool) \<Rightarrow> bool" where
  "steady W I =
     ((\<forall>buf. W buf \<longrightarrow> preserves I (fu_i2c_device_write_full buf)) \<and>
      (\<forall>r. r \<noteq> 0 \<longrightarrow> W [r]) \<and>
      (\<forall>r v. r \<noteq> 0 \<and> r \<noteq> REG_ADDR_FLASH_ADDR_HI \<longrightarrow> W [r, v]) \<and>
      (\<forall>n. preserves I (fu_i2c_device_read_full n)) \<and>
      (\<forall>l s. I s \<longrightarrow> I (snd (g_timer_elapsed_le l s))) \<and>
      (\<forall>us. preserves I (g_usleep us)) \<and>
      (\<forall>st. preserves I (fu_device_set_status st)) \<and>
      (\<forall>n tot. preserves I (fu_device_set_progress_full n tot)))"

lemma preservesD: "preserves I m \<Longrightarrow> I s \<Longrightarrow> m s = (r, s') \<Longrightarrow> I s'"
  by (auto simp: preserves_def dest: spec [of _ s])

lemma preserves_and_then:
  "preserves I m \<Longrightarrow> (\<And>x. preserves I (f x)) \<Longrightarrow> preserves I (and_then m f)"
  unfolding preserves_def and_then_def
  apply (intro allI impI)
  subgoal for s
    apply (cases "m s")
    subgoal for r s'
      by (cases r) (auto dest: spec [of _ s])
    done
  done

lemma preserves_succeed: "preserves I (succeed x)"
  by (simp add: preserves_def succeed_def)

lemma preserves_fail_with: "preserves I (fail_with e)"
  by (simp add: preserves_def fail_with_def)

lemma steady_write_full: "steady W I \<Longrightarrow> W buf \<Longrightarrow> preserves I (fu_i2c_device_write_full buf)"
  by (simp add: steady_def)

lemma steady_read_full: "steady W I \<Longrightarrow> preserves I (fu_i2c_device_read_full n)"
  by (simp add: steady_def)

lemma steady_timer: "steady W I \<Longrightarrow> I s \<Longrightarrow> g_timer_elapsed_le l s = (b, s') \<Longrightarrow> I s'"
  unfolding steady_def by (metis snd_conv)

lemma steady_usleep: "steady W I \<Longrightarrow> preserves I (g_usleep us)"
  by (simp add: steady_def)


lemma steady_set_progress: "steady W I \<Longrightarrow> preserves I (fu_device_set_progress_full n tot)"
  by (simp add: steady_def)

lemma steady_write_register:
  assumes "steady W I" "r \<noteq> 0" "r \<noteq> REG_ADDR_FLASH_ADDR_HI"
  shows "preserves I (lspcon_write_register r v)"
proof -
  have "W [r, v]" using assms by (simp add: steady_def)
  then show ?thesis
    unfolding lspcon_write_register_def by (rule steady_write_full [OF assms(1)])
qed

lemma steady_write_page_hi:
  "steady W I \<Longrightarrow> W [REG_ADDR_FLASH_ADDR_HI, v] \<Longrightarrow>
   preserves I (lspcon_write_register REG_ADDR_FLASH_ADDR_HI v)"
  unfolding lspcon_write_register_def
  by (rule steady_write_full)

lemma steady_read_register:
  assumes "steady W I" "r \<noteq> 0"
  shows "preserves I (lspcon_read_register r)"
proof -
  have "W [r]" using assms by (simp add: steady_def)
  then show ?thesis
    unfolding lspcon_read_register_def fu_i2c_device_read_def fu_i2c_device_write_def
    by (intro preserves_and_then preserves_succeed steady_write_full [OF assms(1)]
        steady_read_full [OF assms(1)])
qed

lemma steady_map_page:
  assumes "steady W I" "W [REG_ADDR_FLASH_ADDR_HI, ucast (drop_bit 16 a)]"
  shows "preserves I (lspcon_map_page a)"
  unfolding lspcon_map_page_def
  by (intro preserves_and_then steady_write_page_hi [OF assms]
      steady_write_register [OF assms(1)]) simp_all

lemma steady_poll_register:
  assumes st: "steady W I" and r0: "r \<noteq> 0"
  shows "preserves I (lspcon_poll_register r m e)"
  unfolding preserves_def
proof (intro allI impI)
  fix s
  assume "I s"
  then show "I (snd (lspcon_poll_register r m e s))"
    using r0
  proof (induction r m e s rule: lspcon_poll_register.induct)
    case (1 r m e s)
    obtain x1 s1 where rr: "lspcon_read_register r s = (x1, s1)"
      by (cases "lspcon_read_register r s")
    have I1: "I s1"
      using preservesD [OF steady_read_register [OF st "1.prems"(2)] "1.prems"(1) rr] .
    show ?case
    proof (cases x1)
      case (Inl err)
      then show ?thesis
        using rr I1 by (simp add: lspcon_poll_register.simps [of r m e s])
    next
      case (Inr v)
      obtain b s2 where tt: "g_timer_elapsed_le 10000000 s1 = (b, s2)"
        by (cases "g_timer_elapsed_le 10000000 s1")
      have I2: "I s2"
        using steady_timer [OF st I1 tt] .
      show ?thesis
      proof (cases "v AND m = e")
        case True
        then show ?thesis
          using rr Inr I1 by (simp add: lspcon_poll_register.simps [of r m e s])
      next
        case False
        show ?thesis
        proof (cases b)
          case True
          then have bT: "b = True" by simp
          have "I (snd (lspcon_poll_register r m e s2))"
            using "1.IH" [OF rr [symmetric] Inr False tt [symmetric] bT I2 "1.prems"(2)] .
          then show ?thesis
            using rr Inr False tt True
            by (simp add: lspcon_poll_register.simps [of r m e s])
        next
          case nb: False
          then show ?thesis
            using rr Inr False tt I2
            by (simp add: lspcon_poll_register.simps [of r m e s])
        qed
      qed
    qed
  qed
qed

lemma steady_tape: "steady (\<lambda>buf. True) (\<lambda>s. length (tape s) \<le> n)"
  unfolding steady_def preserves_def
  by (auto simp: fu_i2c_device_write_full_def fu_i2c_device_read_full_def
      g_timer_elapsed_le_def g_usleep_def fu_device_set_status_def
      fu_device_set_progress_full_def next_reply_def emit_def
      split: list.splits reply.splits)

lemma preserves_tape_le:
  "(\<And>n. preserves (\<lambda>s. length (tape s) \<le> n) m) \<Longrightarrow> m s = (r, s')
     \<Longrightarrow> length (tape s') \<le> length (tape s)"
proof -
  assume a: "\<And>n. preserves (\<lambda>s. length (tape s) \<le> n) m" and b: "m s = (r, s')"
  show ?thesis
    using preservesD [OF a [of "length (tape s)"] _ b] by simp
qed

subsection \<open>SPI flash commands\<close>

primrec write_fifo :: "u8 list \<Rightarrow> unit io" where
  "write_fifo [] = succeed ()"
| "write_fifo (b # bs) =
     and_then (lspcon_write_register REG_ADDR_WR_FIFO b) (\<lambda>_. write_fifo bs)"

definition flash_transmit_command :: "u8 list \<Rightarrow> unit io" where
  "flash_transmit_command command =
     (if \<not> (length command > 0 \<and> length command \<le> 16)
      then fail_with (Err G_RETURN_IF_FAIL ''command_len > 0 && command_len <= 16'' [])
      else
        and_then (write_fifo command) (\<lambda>_.
        and_then (lspcon_write_register REG_ADDR_SPI_LEN (of_nat (length command - 1))) (\<lambda>_.
        lspcon_write_register REG_ADDR_SPI_CTL (SPI_CTL_NOREAD OR SPI_CTL_TRIGGER))))"

definition flash_enable_write :: "unit io" where
  "flash_enable_write = flash_transmit_command [0x06]"

definition flash_read_status :: "u8 io" where
  "flash_read_status =
     and_then (lspcon_write_register REG_ADDR_WR_FIFO 0x05) (\<lambda>_.
     and_then (lspcon_write_register REG_ADDR_SPI_LEN 0) (\<lambda>_.
     and_then (lspcon_write_register REG_ADDR_SPI_CTL SPI_CTL_TRIGGER) (\<lambda>_.
     and_then (lspcon_poll_register REG_ADDR_SPI_CTL SPI_CTL_TRIGGER 0) (\<lambda>_.
     lspcon_read_register REG_ADDR_RD_FIFO))))"




lemma and_then_Inr:
  "and_then m f s = (Inr y, s') \<Longrightarrow> \<exists>x s1. m s = (Inr x, s1) \<and> f x s1 = (Inr y, s')"
  by (auto simp: and_then_def split: prod.splits sum.splits)

lemma flash_read_status_tape_less:
  assumes "flash_read_status s = (Inr v, s')"
  shows "length (tape s') < length (tape s)"
proof -
  let ?pre = "and_then (lspcon_write_register REG_ADDR_WR_FIFO 0x05) (\<lambda>_.
     and_then (lspcon_write_register REG_ADDR_SPI_LEN 0) (\<lambda>_.
     and_then (lspcon_write_register REG_ADDR_SPI_CTL SPI_CTL_TRIGGER) (\<lambda>_.
     lspcon_poll_register REG_ADDR_SPI_CTL SPI_CTL_TRIGGER 0)))"
  have eq: "flash_read_status = and_then ?pre (\<lambda>_. lspcon_read_register REG_ADDR_RD_FIFO)"
    unfolding flash_read_status_def and_then_def
    by (rule ext) (simp split: prod.splits sum.splits)
  obtain x s1 where p: "?pre s = (Inr x, s1)"
    and r: "lspcon_read_register REG_ADDR_RD_FIFO s1 = (Inr v, s')"
    using and_then_Inr [OF assms [unfolded eq]] by blast
  have "\<And>n. preserves (\<lambda>s. length (tape s) \<le> n) ?pre"
    by (intro preserves_and_then steady_write_register [OF steady_tape]
        steady_poll_register [OF steady_tape]) simp_all
  then have "length (tape s1) \<le> length (tape s)"
    using p by (rule preserves_tape_le)
  then show ?thesis
    using lspcon_read_register_tape_less [OF r] by simp
qed

text \<open>\<open>flash_wait_ready\<close>: poll the flash status register until BUSY clears.\<close>

function flash_wait_ready :: "unit io" where
  "flash_wait_ready s =
     (case flash_read_status s of
        (Inl e, s1) \<Rightarrow> (Inl e, s1)
      | (Inr status_register, s1) \<Rightarrow>
          if status_register AND 1 = 0 then (Inr (), s1)
          else (case g_timer_elapsed_le 10000000 (snd (g_usleep G_TIME_SPAN_MILLISECOND s1)) of
                  (True, s2) \<Rightarrow> flash_wait_ready s2
                | (False, s2) \<Rightarrow>
                    (Inl (Err G_IO_ERROR_TIMED_OUT
                            ''flash did not become ready within 10 seconds'' []), s2)))"
  by pat_completeness auto
termination
proof (relation "measure (\<lambda>s. length (tape s))")
  show "wf (measure (\<lambda>s. length (tape s)))" by simp
next
  fix s x1 s1 v x2 s2
  assume "(x1, s1) = flash_read_status s" "x1 = Inr v"
    "(x2, s2) = g_timer_elapsed_le 10000000 (snd (g_usleep G_TIME_SPAN_MILLISECOND s1))"
  then have "length (tape s1) < length (tape s)"
      "length (tape s2) \<le> length (tape (snd (g_usleep G_TIME_SPAN_MILLISECOND s1)))"
    using flash_read_status_tape_less [of s v s1]
      g_timer_elapsed_le_tape_le [of 10000000 _ x2 s2] by simp_all
  then show "(s2, s) \<in> measure (\<lambda>s. length (tape s))"
    by (simp add: g_usleep_def emit_def)
qed

declare flash_wait_ready.simps [simp del]

subsection \<open>Writing flash through the page-7 window\<close>

text \<open>
  Modelled from the spec: \<open>fu_memcpy_safe\<close> is a library call whose code is not
  among the sources; it copies \<open>n\<close> bytes from \<open>src\<close> at \<open>src_offset\<close> to
  \<open>dst\<close> at \<open>dst_offset\<close> and fails when either range leaves its buffer.
\<close>

definition fu_memcpy_safe :: "u8 list \<Rightarrow> nat \<Rightarrow> u8 list \<Rightarrow> nat \<Rightarrow> nat \<Rightarrow> error + u8 list" where
  "fu_memcpy_safe dst dst_offset src src_offset n =
     (if n = 0 then Inr dst
      else if src_offset + n > length src then Inl (Err FWUPD_ERROR_INTERNAL ''read past source'' [])
      else if dst_offset + n > length dst then Inl (Err FWUPD_ERROR_INTERNAL ''write past destination'' [])
      else Inr (take dst_offset dst @ take n (drop src_offset src) @ drop (dst_offset + n) dst))"

text \<open>
  The guarded block of \<open>flash_write\<close>. The result of \<open>i2c_address_guard_new\<close> is
  not tested there: when the ioctl fails the guard is \<open>NULL\<close>, the block goes on at
  the address that is bound, and leaving the scope disposes of nothing. The model
  returns the result of the step that ends the block; the \<open>GError\<close> the failed
  ioctl left behind is not followed further. \<open>write_data\<close> is 257 bytes, of which
  the first \<open>chunk_size + 1\<close> are written and sent.
\<close>

definition flash_write_window :: "u8 list \<Rightarrow> nat \<Rightarrow> nat \<Rightarrow> unit io" where
  "flash_write_window data_buf bytes_written chunk_size s =
     (case i2c_address_guard_new I2C_ADDR_PAGE7 s of
        (guard, s1) \<Rightarrow>
          (let leave = (\<lambda>t. case guard of Inl e \<Rightarrow> t | Inr g \<Rightarrow> i2c_address_guard_dispose t)
           in case fu_memcpy_safe (replicate 257 0) 1 data_buf bytes_written chunk_size of
                Inl e \<Rightarrow> (Inl e, leave s1)
              | Inr write_data \<Rightarrow>
                  (case fu_i2c_device_write_full (take (chunk_size + 1) write_data) s1 of
                     (r, s2) \<Rightarrow> (r, leave s2))))"

function flash_write_loop :: "u32 \<Rightarrow> u8 list \<Rightarrow> nat \<Rightarrow> unit io" where
  "flash_write_loop base_address data_buf bytes_written s =
     (if bytes_written < length data_buf then
        (let address = base_address + of_nat bytes_written;
             chunk_size = min (length data_buf - bytes_written) 256
         in case and_then (lspcon_map_page address)
                   (\<lambda>_. flash_write_window data_buf bytes_written chunk_size) s of
              (Inl e, s1) \<Rightarrow> (Inl e, s1)
            | (Inr u, s1) \<Rightarrow>
                flash_write_loop base_address data_buf (bytes_written + 256)
                  (snd (fu_device_set_progress_full bytes_written (length data_buf) s1)))
      else (Inr (), s))"
  by pat_completeness auto
termination
  by (relation "measure (\<lambda>(b, d, w, s). length d - w)") auto

declare flash_write_loop.simps [simp del]

primrec unlock_map_writes :: "u8 list \<Rightarrow> unit io" where
  "unlock_map_writes [] = succeed ()"
| "unlock_map_writes (b # bs) =
     and_then (lspcon_write_register REG_ADDR_MAP_WRITE b) (\<lambda>_. unlock_map_writes bs)"

definition flash_write :: "u32 \<Rightarrow> u8 list \<Rightarrow> unit io" where
  "flash_write base_address data_buf =
     (if base_address AND 0xFF \<noteq> 0
      then fail_with (Err G_RETURN_IF_FAIL ''(base_address & 0xFF) == 0'' [])
      else
        and_then (unlock_map_writes [0xaa, 0x55, 0x50, 0x41, 0x52, 0x44]) (\<lambda>_.
        and_then (lspcon_write_register REG_ADDR_CLT2SPI 0x20) (\<lambda>_.
        and_then (g_usleep (100 * G_TIME_SPAN_MILLISECOND)) (\<lambda>_.
        and_then (lspcon_write_register REG_ADDR_CLT2SPI 0) (\<lambda>_.
        and_then (flash_write_loop base_address data_buf 0) (\<lambda>_.
        lspcon_write_register REG_ADDR_MAP_WRITE 0))))))"

text \<open>The \<open>block_erase\<close> command of \<open>flash_erase_block\<close>, bytes cut to 8 bits.\<close>

definition block_erase :: "u32 \<Rightarrow> u8 list" where
  "block_erase base_address =
     [0xd8, ucast (drop_bit 16 base_address), ucast (drop_bit 8 base_address),
      ucast base_address]"

definition flash_erase_block :: "u32 \<Rightarrow> nat \<Rightarrow> unit io" where
  "flash_erase_block base_address sz =
     (if base_address AND (of_nat FLASH_BLOCK_SIZE - 1) \<noteq> 0
      then fail_with (Err G_RETURN_IF_FAIL ''(base_address & (FLASH_BLOCK_SIZE - 1)) == 0'' [])
      else if sz \<noteq> FLASH_BLOCK_SIZE
      then fail_with (Err G_RETURN_IF_FAIL ''size == FLASH_BLOCK_SIZE'' [])
      else
        and_then flash_enable_write (\<lambda>_.
        and_then (flash_transmit_command (block_erase base_address)) (\<lambda>_.
        and_then (lspcon_poll_register REG_ADDR_SPI_STATUS SPI_STATUS_SE_MASK 0) (\<lambda>_.
        flash_wait_ready))))"

subsection \<open>Active partition and version\<close>

definition probe_active_flash_partition :: "u8 io" where
  "probe_active_flash_partition s =
     (case i2c_address_guard_new I2C_ADDR_PAGE5 s of
        (Inl e, s1) \<Rightarrow> (Inl e, s1)
      | (Inr guard, s1) \<Rightarrow>
          (case lspcon_read_register REG_ADDR_ACTIVE_PARTITION s1 of
             (r, s2) \<Rightarrow> (r, i2c_address_guard_dispose s2)))"








subsection \<open>Detach, write, attach, dump\<close>

definition set_mpu_running :: "bool \<Rightarrow> unit io" where
  "set_mpu_running running =
     and_then (lspcon_write_register REG_ADDR_MPU 0xc0) (\<lambda>_.
     lspcon_write_register REG_ADDR_MPU (if running then 0 else 0x40))"

definition fu_parade_lspcon_device_detach :: "unit io" where
  "fu_parade_lspcon_device_detach = set_mpu_running False"

definition fu_parade_lspcon_device_attach :: "unit io" where
  "fu_parade_lspcon_device_attach = set_mpu_running True"

text \<open>
  The constants at the head of \<open>fu_parade_lspcon_device_write_firmware\<close>.
  \<open>target_partition << 16\<close> is computed on \<open>int\<close> and stored in a \<open>guint32\<close>;
  \<open>1 - target_partition\<close> is computed on \<open>int\<close> and stored in a \<open>guint8\<close>.
\<close>

definition target_partition :: "u8 \<Rightarrow> u8" where
  "target_partition active = (if active = 1 then 2 else 1)"

definition target_address :: "u8 \<Rightarrow> u32" where
  "target_address active = push_bit 16 (ucast (target_partition active))"

definition flag_data :: "u8 \<Rightarrow> u8 list" where
  "flag_data active = [0x55, 0xaa, target_partition active, 1 - target_partition active]"

definition write_sr_volatile :: "u8 list" where
  "write_sr_volatile = [0x50]"

definition write_sr_disable_bp :: "u8 list" where
  "write_sr_disable_bp = [0x01, 0x80, 0x00]"

definition write_sr_enable_bp :: "u8 list" where
  "write_sr_enable_bp = [0x01, 0x8c, 0x00]"

definition prefix_error ::
  "string \<Rightarrow> nat list \<Rightarrow> ('s \<Rightarrow> (error + 'a) \<times> 's) \<Rightarrow> 's \<Rightarrow> (error + 'a) \<times> 's" where
  "prefix_error p ps m s =
     (case m s of (Inl e, s') \<Rightarrow> (Inl (g_prefix_error p ps e), s') | (Inr x, s') \<Rightarrow> (Inr x, s'))"

text \<open>
  Modelled from the spec: \<open>fu_firmware_get_bytes\<close> is a library call whose code is
  not among the sources; a firmware object either holds its bytes or has none to
  give.
\<close>

definition fu_firmware_get_bytes :: "u8 list option \<Rightarrow> (u8 list) io" where
  "fu_firmware_get_bytes firmware =
     (case firmware of
        None \<Rightarrow> fail_with (Err FWUPD_ERROR_INTERNAL ''no payload set'' [])
      | Some blob \<Rightarrow> succeed blob)"

text \<open>Lines 627 to 656: unprotect, erase the target partition, write the image.\<close>

definition write_firmware_program :: "u8 \<Rightarrow> u8 list \<Rightarrow> unit io" where
  "write_firmware_program active firmware_buf =
     and_then (lspcon_write_register REG_ADDR_WR_PROTECT WR_PROTECT_DISABLE) (\<lambda>_.
     and_then (flash_transmit_command write_sr_volatile) (\<lambda>_.
     and_then (flash_transmit_command write_sr_disable_bp) (\<lambda>_.
     and_then flash_wait_ready (\<lambda>_.
     and_then (fu_device_set_status FWUPD_STATUS_DEVICE_ERASE) (\<lambda>_.
     and_then (prefix_error ''failed to erase flash partition %d: ''
                 [unat (target_partition active)]
                 (flash_erase_block (target_address active) (length firmware_buf))) (\<lambda>_.
     and_then (fu_device_set_status FWUPD_STATUS_DEVICE_WRITE) (\<lambda>_.
     prefix_error ''failed to write firmware to partition %d: ''
       [unat (target_partition active)]
       (flash_write (target_address active) firmware_buf))))))))"

text \<open>Lines 669 to 697: the flag partition, then protection is switched on again.\<close>

definition write_firmware_commit :: "u8 \<Rightarrow> unit io" where
  "write_firmware_commit active =
     and_then (fu_device_set_status FWUPD_STATUS_DEVICE_ERASE) (\<lambda>_.
     and_then (flash_erase_block 0 FLASH_BLOCK_SIZE) (\<lambda>_.
     and_then (fu_device_set_status FWUPD_STATUS_DEVICE_WRITE) (\<lambda>_.
     and_then (flash_write 0 (flag_data active)) (\<lambda>_.
     and_then (fu_device_set_status FWUPD_STATUS_DEVICE_VERIFY) (\<lambda>_.
     and_then (flash_read 0 (length (flag_data active))) (\<lambda>readback_buf.
       if flag_data active \<noteq> readback_buf
       then fail_with (Err FWUPD_ERROR_WRITE
              ''flag partition contents do not match written data'' [])
       else
         and_then (flash_transmit_command write_sr_volatile) (\<lambda>_.
         and_then (flash_transmit_command write_sr_enable_bp) (\<lambda>_.
         lspcon_write_register REG_ADDR_WR_PROTECT 0))))))))"

definition fu_parade_lspcon_device_write_firmware :: "u8 list option \<Rightarrow> unit io" where
  "fu_parade_lspcon_device_write_firmware firmware s =
     (let active = active_partition s
      in and_then (fu_firmware_get_bytes firmware) (\<lambda>firmware_buf.
           if length firmware_buf \<noteq> FLASH_BLOCK_SIZE
           then fail_with (Err FWUPD_ERROR_NOT_SUPPORTED ''invalid image size %#x, expected %#x''
                  [length firmware_buf, FLASH_BLOCK_SIZE])
           else
             and_then (write_firmware_program active firmware_buf) (\<lambda>_.
             and_then (fu_device_set_status FWUPD_STATUS_DEVICE_VERIFY) (\<lambda>_.
             and_then (flash_read (target_address active) (length firmware_buf)) (\<lambda>readback_buf.
               if firmware_buf \<noteq> readback_buf
               then fail_with (Err FWUPD_ERROR_WRITE
                      ''flash contents do not match written data'' [])
               else write_firmware_commit active)))) s)"

definition fu_parade_lspcon_device_dump_firmware :: "(u8 list) io" where
  "fu_parade_lspcon_device_dump_firmware s =
     flash_read (ucast (active_partition s) * of_nat FLASH_BLOCK_SIZE) FLASH_BLOCK_SIZE s"

subsection \<open>Example states and tapes\<close>

text \<open>
  A device as \<open>fu_parade_lspcon_device_open\<close> leaves it: page 2 is bound and
  nothing has happened yet. \<open>poll_misses\<close> is the tape of polls that read a value
  and then the clock: the write of the register address, the byte read, the clock.
\<close>

definition opened :: "u8 \<Rightarrow> reply list \<Rightarrow> lspcon" where
  "opened active replies =
     \<lparr>active_partition = active, aux_device_name = Some ''aux'', version = None,
      i2c_addr = I2C_ADDR_PAGE2, tape = replies, trace = []\<rparr>"

definition poll_misses :: "(u8 \<times> nat) list \<Rightarrow> reply list" where
  "poll_misses ms = concat (map (\<lambda>(v, t). [Done, Got [v], Elapsed t]) ms)"

section \<open>Properties of the LSPCON driver\<close>

subsection \<open>Polling a register\<close>

lemma read_register_ok:
  "tape s = Done # Got [v] # rest \<Longrightarrow>
   lspcon_read_register r s =
     (Inr v, s\<lparr>tape := rest,
        trace := I2cRead (i2c_addr s) 1 (Some [v]) # I2cWrite (i2c_addr s) [r] True # trace s\<rparr>)"
  by (simp add: lspcon_read_register_def fu_i2c_device_write_def fu_i2c_device_write_full_def
      fu_i2c_device_read_def fu_i2c_device_read_full_def and_then_def succeed_def
      next_reply_def emit_def)

lemma poll_hit:
  "tape s = Done # Got [v] # rest \<Longrightarrow> v AND msk = expected \<Longrightarrow>
   lspcon_poll_register r msk expected s =
     (Inr (), s\<lparr>tape := rest,
        trace := I2cRead (i2c_addr s) 1 (Some [v]) # I2cWrite (i2c_addr s) [r] True # trace s\<rparr>)"
  by (subst lspcon_poll_register.simps) (simp add: read_register_ok)

lemma poll_late:
  "tape s = Done # Got [v] # Elapsed t # rest \<Longrightarrow> v AND msk \<noteq> expected \<Longrightarrow> 10000000 < t \<Longrightarrow>
   lspcon_poll_register r msk expected s =
     (Inl (poll_timeout_error r msk expected v), s\<lparr>tape := rest,
        trace := I2cRead (i2c_addr s) 1 (Some [v]) # I2cWrite (i2c_addr s) [r] True # trace s\<rparr>)"
  by (subst lspcon_poll_register.simps)
    (simp add: read_register_ok g_timer_elapsed_le_def next_reply_def)

lemma poll_miss:
  "tape s = Done # Got [v] # Elapsed t # rest \<Longrightarrow> v AND msk \<noteq> expected \<Longrightarrow> t \<le> 10000000 \<Longrightarrow>
   lspcon_poll_register r msk expected s =
   lspcon_poll_register r msk expected
     (snd (g_timer_elapsed_le 10000000 (snd (lspcon_read_register r s))))"
  by (subst lspcon_poll_register.simps)
    (simp add: read_register_ok g_timer_elapsed_le_def next_reply_def)

lemma poll_miss_tape:
  "tape s = Done # Got [v] # Elapsed t # rest \<Longrightarrow>
   tape (snd (g_timer_elapsed_le 10000000 (snd (lspcon_read_register r s)))) = rest"
  by (simp add: read_register_ok g_timer_elapsed_le_def next_reply_def)

lemma poll_misses_skip:
  assumes "\<forall>(v, t) \<in> set ms. v AND msk \<noteq> expected \<and> t \<le> 10000000"
    and "tape s = poll_misses ms @ rest"
  shows "\<exists>s'. tape s' = rest \<and>
     lspcon_poll_register r msk expected s = lspcon_poll_register r msk expected s'"
  using assms
proof (induction ms arbitrary: s)
  case Nil
  then show ?case by (auto simp: poll_misses_def)
next
  case (Cons m ms)
  obtain v t where m: "m = (v, t)" by (cases m)
  have miss: "v AND msk \<noteq> expected" "t \<le> 10000000" using Cons.prems m by auto
  have tp: "tape s = Done # Got [v] # Elapsed t # (poll_misses ms @ rest)"
    using Cons.prems(2) by (simp add: poll_misses_def m)
  let ?s1 = "snd (g_timer_elapsed_le 10000000 (snd (lspcon_read_register r s)))"
  have step: "lspcon_poll_register r msk expected s = lspcon_poll_register r msk expected ?s1"
    using poll_miss [OF tp miss] .
  have "\<exists>s'. tape s' = rest \<and>
     lspcon_poll_register r msk expected ?s1 = lspcon_poll_register r msk expected s'"
    using Cons.prems(1) poll_miss_tape [OF tp] by (intro Cons.IH) auto
  then show ?case using step by auto
qed

text \<open>
  C8: \<open>lspcon_poll_register\<close> reads the register again and again. When the reads
  before it all missed with the clock within 10 seconds (10000000 microseconds) after
  each, the first read whose value under the mask equals the expected value ends the poll
  with success, and nothing more is read. When such a read misses and the clock then
  shows more than 10 seconds, the poll ends with \<open>G_IO_ERROR_TIMED_OUT\<close>, whose
  message carries the value read last.
\<close>

theorem lspcon_poll_register_outcome:
  assumes "\<forall>(v, t) \<in> set misses. v AND msk \<noteq> expected \<and> t \<le> 10000000"
  shows "(tape s = poll_misses misses @ Done # Got [v] # rest \<and> v AND msk = expected \<longrightarrow>
            fst (lspcon_poll_register register_address msk expected s) = Inr () \<and>
            tape (snd (lspcon_poll_register register_address msk expected s)) = rest) \<and>
         (tape s = poll_misses misses @ Done # Got [v] # Elapsed t # rest \<and>
            v AND msk \<noteq> expected \<and> 10000000 < t \<longrightarrow>
            fst (lspcon_poll_register register_address msk expected s) =
              Inl (poll_timeout_error register_address msk expected v) \<and>
            tape (snd (lspcon_poll_register register_address msk expected s)) = rest)"
proof (intro conjI impI)
  assume a: "tape s = poll_misses misses @ Done # Got [v] # rest \<and> v AND msk = expected"
  then obtain s' where s': "tape s' = Done # Got [v] # rest"
    "lspcon_poll_register register_address msk expected s =
     lspcon_poll_register register_address msk expected s'"
    using poll_misses_skip [OF assms, of s "Done # Got [v] # rest" register_address] by auto
  show "fst (lspcon_poll_register register_address msk expected s) = Inr ()"
    using s' a poll_hit [OF s'(1), of msk expected register_address] by simp
  show "tape (snd (lspcon_poll_register register_address msk expected s)) = rest"
    using s' a poll_hit [OF s'(1), of msk expected register_address] by simp
next
  assume a: "tape s = poll_misses misses @ Done # Got [v] # Elapsed t # rest \<and>
            v AND msk \<noteq> expected \<and> 10000000 < t"
  then obtain s' where s': "tape s' = Done # Got [v] # Elapsed t # rest"
    "lspcon_poll_register register_address msk expected s =
     lspcon_poll_register register_address msk expected s'"
    using poll_misses_skip [OF assms, of s "Done # Got [v] # Elapsed t # rest" register_address] by auto
  show "fst (lspcon_poll_register register_address msk expected s) =
              Inl (poll_timeout_error register_address msk expected v)"
    using s' a poll_late [OF s'(1), of msk expected register_address] by simp
  show "tape (snd (lspcon_poll_register register_address msk expected s)) = rest"
    using s' a poll_late [OF s'(1), of msk expected register_address] by simp
qed

theorem lspcon_poll_register_outcome_witness:
  "fst (lspcon_poll_register REG_ADDR_SPI_CTL 0x01 0
     (opened 1 (poll_misses [(0x01, 20), (0x03, 9000000)] @ [Done, Got [0x04], Done]))) = Inr () \<and>
   tape (snd (lspcon_poll_register REG_ADDR_SPI_CTL 0x01 0
     (opened 1 (poll_misses [(0x01, 20), (0x03, 9000000)] @ [Done, Got [0x04], Done])))) = [Done] \<and>
   fst (lspcon_poll_register REG_ADDR_SPI_CTL 0x01 0
     (opened 1 (poll_misses [(0x01, 20), (0x03, 9000000)] @ [Done, Got [0x05], Elapsed 10000001, Done]))) =
       Inl (Err G_IO_ERROR_TIMED_OUT
         ''register %x did not read %x (mask %x) within 10 seconds: read %x'' [0x93, 0, 1, 5]) \<and>
   tape (snd (lspcon_poll_register REG_ADDR_SPI_CTL 0x01 0
     (opened 1 (poll_misses [(0x01, 20), (0x03, 9000000)] @ [Done, Got [0x05], Elapsed 10000001, Done])))) = [Done]"
proof -
  have h: "\<forall>(v, t) \<in> set [(0x01 :: u8, 20 :: nat), (0x03, 9000000)]. v AND 0x01 \<noteq> 0 \<and> t \<le> 10000000"
    by simp
  show ?thesis
    using
      lspcon_poll_register_outcome [OF h, where
        s = "opened 1 (poll_misses [(0x01, 20), (0x03, 9000000)] @ [Done, Got [0x04], Done])"
        and v = "0x04" and rest = "[Done]" and register_address = REG_ADDR_SPI_CTL]
      lspcon_poll_register_outcome [OF h, where
        s = "opened 1 (poll_misses [(0x01, 20), (0x03, 9000000)] @ [Done, Got [0x05], Elapsed 10000001, Done])"
        and v = "0x05" and t = "10000001" and rest = "[Done]"
        and register_address = REG_ADDR_SPI_CTL]
    by (simp add: opened_def poll_timeout_error_def)
qed

subsection \<open>Image size\<close>

text \<open>
  C4: a firmware whose length is not \<open>FLASH_BLOCK_SIZE\<close> (0x10000) is refused with
  \<open>FWUPD_ERROR_NOT_SUPPORTED\<close>, and the device is left exactly as it was: no reply
  is taken from the bus and no event is recorded, so no register has been written and
  nothing has been erased or programmed.
\<close>

theorem write_firmware_size_mismatch:
  "length fw \<noteq> FLASH_BLOCK_SIZE \<Longrightarrow>
     fu_parade_lspcon_device_write_firmware (Some fw) s =
       (Inl (Err FWUPD_ERROR_NOT_SUPPORTED ''invalid image size %#x, expected %#x''
               [length fw, FLASH_BLOCK_SIZE]), s)"
  by (simp add: fu_parade_lspcon_device_write_firmware_def fu_firmware_get_bytes_def
      and_then_def succeed_def fail_with_def)

theorem write_firmware_size_mismatch_witness:
  "length [0x12 :: u8, 0x34] \<noteq> FLASH_BLOCK_SIZE \<and>
   fu_parade_lspcon_device_write_firmware (Some [0x12, 0x34]) (opened 1 [Done, Done]) =
     (Inl (Err FWUPD_ERROR_NOT_SUPPORTED ''invalid image size %#x, expected %#x''
             [2, 0x10000]), opened 1 [Done, Done]) \<and>
   tape (snd (fu_parade_lspcon_device_write_firmware (Some [0x12, 0x34]) (opened 1 [Done, Done])))
     = [Done, Done] \<and>
   trace (snd (fu_parade_lspcon_device_write_firmware (Some [0x12, 0x34]) (opened 1 [Done, Done])))
     = []"
  using write_firmware_size_mismatch [of "[0x12, 0x34]" "opened 1 [Done, Done]"]
  by (simp add: opened_def)

subsection \<open>Runs in which every bus call succeeds\<close>

text \<open>
  \<open>passes m rs x\<close>: on any tape that starts with the replies \<open>rs\<close>, \<open>m\<close>
  returns \<open>x\<close> and has taken exactly \<open>rs\<close> off the tape.
\<close>

definition passes :: "'a io \<Rightarrow> reply list \<Rightarrow> 'a \<Rightarrow> bool" where
  "passes m rs x = (\<forall>(s :: lspcon) rest. tape s = rs @ rest \<longrightarrow> fst (m s) = Inr x \<and> tape (snd (m s)) = rest)"



lemma passes_succeed: "passes (succeed x) [] x"
  by (simp add: passes_def succeed_def)



lemma passes_ensure_i2c_address: "passes (ensure_i2c_address a) [Done] ()"
  by (simp add: passes_def ensure_i2c_address_def fu_udev_device_ioctl_I2C_SLAVE_def
      next_reply_def emit_def)















lemma write_loop_done:
  "length d \<le> bw \<Longrightarrow> flash_write_loop base d bw s = (Inr (), s)"
  by (subst flash_write_loop.simps) simp











lemma read_loop_done: "flash_read_loop tgt base d 0 s = (Inr d, s)"
  by (subst flash_read_loop.simps) simp











subsection \<open>Verification after the write\<close>

text \<open>
  A \<open>flash_read\<close> that succeeds has filled the buffer with as many bytes as were
  asked for, so the \<open>memcmp\<close> of image and readback over the size of the image is
  the comparison of the two lists.
\<close>

lemma read_full_length:
  "fu_i2c_device_read_full n s = (Inr bs, s') \<Longrightarrow> length bs = n"
  by (auto simp: fu_i2c_device_read_full_def next_reply_def split: list.splits reply.splits if_splits)

lemma read_window_length:
  "flash_read_window s = (Inr bs, s') \<Longrightarrow> length bs = 256"
  by (auto simp: flash_read_window_def dest: read_full_length split: prod.splits sum.splits)

lemma flash_read_loop_length:
  "flash_read_loop target_len base_address data len s = (Inr buf, s') \<Longrightarrow>
   length buf = length data + len"
proof (induction target_len base_address data len s rule: flash_read_loop.induct)
  case (1 target_len base_address data len s)
  show ?case
  proof (cases "len > 0")
    case False
    then show ?thesis
      using "1.prems" by (subst (asm) flash_read_loop.simps) simp
  next
    case True
    let ?m = "and_then (lspcon_map_page base_address) (\<lambda>_. flash_read_window) s"
    obtain res s1 where m: "?m = (res, s1)" by (cases ?m)
    obtain page_data where r: "res = Inr page_data"
      using "1.prems" True m
      by (subst (asm) flash_read_loop.simps) (cases res; simp add: Let_def)
    have w: "length page_data = 256"
      using m r read_window_length
      by (auto simp: and_then_def split: prod.splits sum.splits)
    let ?start = "unat (base_address AND 0xFF)"
    let ?take = "min len (256 - ?start)"
    have lt: "?start < 256" by (rule unat_and_0xFF_less)
    have tk: "length (take ?take (drop ?start page_data)) = ?take"
      using w lt by simp
    have "length buf = length (data @ take ?take (drop ?start page_data)) + (len - ?take)"
      apply (rule "1.IH" [OF True refl refl m [symmetric, unfolded r] refl])
      using "1.prems" True m r
      apply (subst (asm) flash_read_loop.simps)
      apply (simp add: Let_def)
      done
    then show ?thesis
      using tk by simp
  qed
qed

lemma flash_read_length:
  "flash_read base_address len s = (Inr buf, s') \<Longrightarrow> length buf = len"
  using flash_read_loop_length [of len base_address "[]" len s buf s']
  by (simp add: flash_read_def)






subsection \<open>What the flash routines keep invariant\<close>



lemma steady_unlock_map_writes:
  assumes "steady W I"
  shows "preserves I (unlock_map_writes bs)"
proof (induction bs)
  case Nil
  show ?case by (simp add: preserves_succeed)
next
  case (Cons b bs)
  have "preserves I (lspcon_write_register REG_ADDR_MAP_WRITE b)"
    by (rule steady_write_register [OF assms]) simp_all
  then show ?case
    using Cons.IH by (simp add: preserves_and_then del: REG_ADDR_MAP_WRITE_def)
qed

text \<open>
  \<open>selects W base len\<close>: \<open>W\<close> holds of the write that selects the high page
  byte of every address in the \<open>len\<close> bytes from \<open>base\<close>.
\<close>

definition selects :: "(u8 list \<Rightarrow> bool) \<Rightarrow> u32 \<Rightarrow> nat \<Rightarrow> bool" where
  "selects W base len =
     (\<forall>k < len. W [REG_ADDR_FLASH_ADDR_HI, ucast (drop_bit 16 (base + of_nat k))])"

lemma selects_first: "selects W base len \<Longrightarrow> 0 < len \<Longrightarrow>
   W [REG_ADDR_FLASH_ADDR_HI, ucast (drop_bit 16 base)]"
  unfolding selects_def by (drule spec [of _ 0]) simp

lemma selects_rest: "selects W base len \<Longrightarrow> n \<le> len \<Longrightarrow> selects W (base + of_nat n) (len - n)"
  unfolding selects_def
proof (intro allI impI)
  fix k
  assume a: "\<forall>k<len. W [REG_ADDR_FLASH_ADDR_HI, ucast (drop_bit 16 (base + of_nat k))]"
    and "n \<le> len" "k < len - n"
  then have "n + k < len" by simp
  then have "W [REG_ADDR_FLASH_ADDR_HI, ucast (drop_bit 16 (base + of_nat (n + k)))]"
    using a by blast
  then show "W [REG_ADDR_FLASH_ADDR_HI, ucast (drop_bit 16 (base + of_nat n + of_nat k))]"
    by (simp add: add.assoc)
qed

lemma steady_read_loop:
  assumes st: "steady W I" and win: "preserves I flash_read_window"
  shows "selects W base len \<Longrightarrow> preserves I (flash_read_loop tgt base d len)"
  unfolding preserves_def
proof (intro allI impI)
  fix s
  assume "selects W base len" "I s"
  then show "I (snd (flash_read_loop tgt base d len s))"
  proof (induction tgt base d len s rule: flash_read_loop.induct)
    case (1 tgt base d len s)
    show ?case
    proof (cases "0 < len")
      case False
      then show ?thesis using "1.prems" by (simp add: read_loop_done)
    next
      case True
      let ?start = "unat (base AND 0xFF)"
      let ?take = "min len (256 - ?start)"
      let ?page = "and_then (lspcon_map_page base) (\<lambda>_. flash_read_window)"
      have "preserves I ?page"
        by (intro preserves_and_then steady_map_page [OF st] win
            selects_first [OF "1.prems"(1) True])
      obtain x1 s1 where pg: "?page s = (x1, s1)" by (cases "?page s")
      have I1: "I s1" using preservesD [OF \<open>preserves I ?page\<close> "1.prems"(2) pg] .
      show ?thesis
      proof (cases x1)
        case (Inl e)
        then show ?thesis
          using True pg I1 by (simp add: flash_read_loop.simps [of tgt base d len s] Let_def)
      next
        case (Inr page_data)
        let ?s2 = "snd (fu_device_set_progress_full (tgt - (len - ?take)) tgt s1)"
        have I2: "I ?s2"
          using steady_set_progress [OF st] I1 by (simp add: preserves_def)
        have sel: "selects W (base + of_nat ?take) (len - ?take)"
          by (rule selects_rest [OF "1.prems"(1)]) simp
        have "I (snd (flash_read_loop tgt (base + of_nat ?take)
                  (d @ take ?take (drop ?start page_data)) (len - ?take) ?s2))"
          by (rule "1.IH" [OF True refl refl pg [symmetric] Inr sel I2])
        then show ?thesis
          using True pg Inr by (simp add: flash_read_loop.simps [of tgt base d len s] Let_def)
      qed
    qed
  qed
qed


lemma steady_flash_read:
  "steady W I \<Longrightarrow> preserves I flash_read_window \<Longrightarrow> selects W base len \<Longrightarrow>
   preserves I (flash_read base len)"
  unfolding flash_read_def by (rule steady_read_loop)

lemma steady_write_loop:
  assumes st: "steady W I"
    and win: "\<And>bw. bw < length d \<Longrightarrow> 256 dvd bw \<Longrightarrow>
                preserves I (flash_write_window d bw (min (length d - bw) 256))"
    and sel: "selects W base (length d)"
    and al: "256 dvd bw"
  shows "preserves I (flash_write_loop base d bw)"
  unfolding preserves_def
proof (intro allI impI)
  fix s
  assume "I s"
  then show "I (snd (flash_write_loop base d bw s))"
    using win sel al
  proof (induction base d bw s rule: flash_write_loop.induct)
    case (1 base d bw s)
    show ?case
    proof (cases "bw < length d")
      case False
      then show ?thesis using "1.prems"(1) by (simp add: write_loop_done)
    next
      case True
      let ?cs = "min (length d - bw) 256"
      let ?page = "and_then (lspcon_map_page (base + of_nat bw))
                     (\<lambda>_. flash_write_window d bw ?cs)"
      have "W [REG_ADDR_FLASH_ADDR_HI, ucast (drop_bit 16 (base + of_nat bw))]"
        using "1.prems"(3) True unfolding selects_def by blast
      then have "preserves I ?page"
        by (intro preserves_and_then steady_map_page [OF st] "1.prems"(2) [OF True "1.prems"(4)])
      obtain x1 s1 where pg: "?page s = (x1, s1)" by (cases "?page s")
      have I1: "I s1" using preservesD [OF \<open>preserves I ?page\<close> "1.prems"(1) pg] .
      show ?thesis
      proof (cases x1)
        case (Inl e)
        then show ?thesis
          using True pg I1 by (simp add: flash_write_loop.simps [of base d bw s] Let_def)
      next
        case (Inr u)
        let ?s2 = "snd (fu_device_set_progress_full bw (length d) s1)"
        have I2: "I ?s2"
          using steady_set_progress [OF st] I1 by (simp add: preserves_def)
        have "256 dvd bw + 256" using "1.prems"(4) by simp
        then have "I (snd (flash_write_loop base d (bw + 256) ?s2))"
          by (intro "1.IH" [OF True refl refl pg [symmetric] Inr I2 "1.prems"(2,3)])
        then show ?thesis
          using True pg Inr by (simp add: flash_write_loop.simps [of base d bw s] Let_def)
      qed
    qed
  qed
qed

lemma steady_flash_write:
  assumes st: "steady W I"
    and win: "\<And>bw. bw < length d \<Longrightarrow> 256 dvd bw \<Longrightarrow>
                preserves I (flash_write_window d bw (min (length d - bw) 256))"
    and sel: "selects W base (length d)"
  shows "preserves I (flash_write base d)"
proof -
  have "preserves I (
        and_then (unlock_map_writes [0xaa, 0x55, 0x50, 0x41, 0x52, 0x44]) (\<lambda>_.
        and_then (lspcon_write_register REG_ADDR_CLT2SPI 0x20) (\<lambda>_.
        and_then (g_usleep (100 * G_TIME_SPAN_MILLISECOND)) (\<lambda>_.
        and_then (lspcon_write_register REG_ADDR_CLT2SPI 0) (\<lambda>_.
        and_then (flash_write_loop base d 0) (\<lambda>_.
        lspcon_write_register REG_ADDR_MAP_WRITE 0))))))"
    by (intro preserves_and_then steady_unlock_map_writes [OF st]
        steady_write_register [OF st] steady_usleep [OF st]
        steady_write_loop [OF st win sel]) simp_all
  then show ?thesis
    unfolding flash_write_def by (simp add: preserves_fail_with)
qed


subsection \<open>The address guard\<close>

text \<open>
  \<open>restored s\<close>: page 2 is bound, or an ioctl that was to bind page 2 again has
  failed at some point of the run.
\<close>

definition restored :: "lspcon \<Rightarrow> bool" where
  "restored s = (i2c_addr s = I2C_ADDR_PAGE2 \<or> Ioctl I2C_ADDR_PAGE2 False \<in> set (trace s))"

lemma steady_restored: "steady (\<lambda>buf. True) restored"
  unfolding steady_def preserves_def restored_def
  by (auto simp: fu_i2c_device_write_full_def fu_i2c_device_read_full_def
      g_timer_elapsed_le_def g_usleep_def fu_device_set_status_def
      fu_device_set_progress_full_def next_reply_def emit_def
      split: list.splits reply.splits)

lemma selects_any: "selects (\<lambda>buf. True) base len"
  by (simp add: selects_def)

lemma dispose_restored: "restored (i2c_address_guard_dispose s)"
  unfolding restored_def i2c_address_guard_dispose_def ensure_i2c_address_def
    fu_udev_device_ioctl_I2C_SLAVE_def next_reply_def emit_def
  by (auto split: list.splits reply.splits)

lemma guard_new_failed:
  "i2c_address_guard_new a s = (Inl e, s1) \<Longrightarrow> restored s \<Longrightarrow> restored s1"
  unfolding restored_def i2c_address_guard_new_def ensure_i2c_address_def
    fu_udev_device_ioctl_I2C_SLAVE_def next_reply_def emit_def
  by (auto split: list.splits reply.splits)

lemma read_window_restored: "preserves restored flash_read_window"
  unfolding preserves_def
proof (intro allI impI)
  fix s
  assume r: "restored s"
  obtain g s1 where g: "i2c_address_guard_new I2C_ADDR_PAGE7 s = (g, s1)"
    by (cases "i2c_address_guard_new I2C_ADDR_PAGE7 s")
  show "restored (snd (flash_read_window s))"
  proof (cases g)
    case (Inl e)
    then show ?thesis
      using g guard_new_failed [of I2C_ADDR_PAGE7 s e s1] r
      by (simp add: flash_read_window_def del: I2C_ADDR_PAGE7_def)
  next
    case (Inr u)
    then show ?thesis
      using g dispose_restored
      by (simp add: flash_read_window_def split: prod.splits del: I2C_ADDR_PAGE7_def)
  qed
qed

lemma write_full_restored: "restored s \<Longrightarrow> restored (snd (fu_i2c_device_write_full buf s))"
  using steady_write_full [OF steady_restored, of buf] by (simp add: preserves_def)

lemma write_window_restored: "preserves restored (flash_write_window d bw cs)"
  unfolding preserves_def
proof (intro allI impI)
  fix s
  assume r: "restored s"
  obtain g s1 where g: "i2c_address_guard_new I2C_ADDR_PAGE7 s = (g, s1)"
    by (cases "i2c_address_guard_new I2C_ADDR_PAGE7 s")
  show "restored (snd (flash_write_window d bw cs s))"
  proof (cases g)
    case (Inl e)
    then have "restored s1" using g guard_new_failed [of I2C_ADDR_PAGE7 s e s1] r by simp
    then show ?thesis
      using g Inl write_full_restored [of s1]
      by (simp add: flash_write_window_def Let_def split: prod.splits sum.splits
          del: I2C_ADDR_PAGE7_def)
  next
    case (Inr u)
    then show ?thesis
      using g dispose_restored
      by (simp add: flash_write_window_def Let_def split: prod.splits sum.splits
          del: I2C_ADDR_PAGE7_def)
  qed
qed

lemma probe_restored: "preserves restored probe_active_flash_partition"
  unfolding preserves_def
proof (intro allI impI)
  fix s
  assume r: "restored s"
  obtain g s1 where g: "i2c_address_guard_new I2C_ADDR_PAGE5 s = (g, s1)"
    by (cases "i2c_address_guard_new I2C_ADDR_PAGE5 s")
  show "restored (snd (probe_active_flash_partition s))"
  proof (cases g)
    case (Inl e)
    then show ?thesis
      using g guard_new_failed [of I2C_ADDR_PAGE5 s e s1] r
      by (simp add: probe_active_flash_partition_def del: I2C_ADDR_PAGE5_def)
  next
    case (Inr u)
    then show ?thesis
      using g dispose_restored
      by (simp add: probe_active_flash_partition_def split: prod.splits
          del: I2C_ADDR_PAGE5_def)
  qed
qed

text \<open>
  C3, as the code has it: \<open>flash_read\<close>, \<open>flash_write\<close> and
  \<open>probe_active_flash_partition\<close>, started with page 2 bound, return with page 2
  bound on success and on every error path, provided no ioctl that binds page 2 again
  has failed. (The disposer drops the result of that ioctl.)
\<close>

theorem guard_restores_page2:
  assumes "i2c_addr s = I2C_ADDR_PAGE2"
  shows "(Ioctl I2C_ADDR_PAGE2 False \<notin> set (trace (snd (flash_read base_address len s))) \<longrightarrow>
            i2c_addr (snd (flash_read base_address len s)) = I2C_ADDR_PAGE2) \<and>
         (Ioctl I2C_ADDR_PAGE2 False \<notin> set (trace (snd (flash_write base_address data_buf s))) \<longrightarrow>
            i2c_addr (snd (flash_write base_address data_buf s)) = I2C_ADDR_PAGE2) \<and>
         (Ioctl I2C_ADDR_PAGE2 False \<notin> set (trace (snd (probe_active_flash_partition s))) \<longrightarrow>
            i2c_addr (snd (probe_active_flash_partition s)) = I2C_ADDR_PAGE2)"
proof -
  have r: "restored s" using assms by (simp add: restored_def)
  have "restored (snd (flash_read base_address len s))"
    using steady_flash_read [OF steady_restored read_window_restored selects_any] r
    by (simp add: preserves_def)
  moreover have "restored (snd (flash_write base_address data_buf s))"
    using steady_flash_write [OF steady_restored write_window_restored selects_any] r
    by (simp add: preserves_def)
  moreover have "restored (snd (probe_active_flash_partition s))"
    using probe_restored r by (simp add: preserves_def)
  ultimately show ?thesis
    unfolding restored_def by blast
qed


lemmas run_defs =
  flash_read_def flash_read_loop.simps flash_read_window_def lspcon_map_page_def
  lspcon_write_register_def lspcon_read_register_def fu_i2c_device_write_def
  fu_i2c_device_read_def fu_i2c_device_write_full_def fu_i2c_device_read_full_def
  i2c_address_guard_new_def i2c_address_guard_dispose_def ensure_i2c_address_def
  fu_udev_device_ioctl_I2C_SLAVE_def fu_device_set_progress_full_def
  probe_active_flash_partition_def
  and_then_def succeed_def next_reply_def emit_def opened_def Let_def

text \<open>
  C3 as stated fails: the read of one byte below succeeds, but the ioctl issued when the
  guard is disposed of fails and is ignored, so \<open>flash_read\<close> returns success with
  page 7 still bound.
\<close>

theorem guard_restore_failure_counterexample:
  "i2c_addr (opened 1 [Done, Done, Done, Got (replicate 256 0), Fail]) = I2C_ADDR_PAGE2 \<and>
   fst (flash_read 0 1 (opened 1 [Done, Done, Done, Got (replicate 256 0), Fail])) = Inr [0] \<and>
   i2c_addr (snd (flash_read 0 1 (opened 1 [Done, Done, Done, Got (replicate 256 0), Fail])))
     = I2C_ADDR_PAGE7"
  by (simp add: run_defs)

theorem guard_restores_page2_witness:
  "fst (flash_read 0 1 (opened 1 [Done, Done, Done, Fail, Done])) =
     Inl (Err BUS_FAILURE ''i2c read'' []) \<and>
   i2c_addr (snd (flash_read 0 1 (opened 1 [Done, Done, Done, Fail, Done]))) = I2C_ADDR_PAGE2 \<and>
   fst (probe_active_flash_partition (opened 1 [Done, Done, Got [2], Done])) = Inr 2 \<and>
   i2c_addr (snd (probe_active_flash_partition (opened 1 [Done, Done, Got [2], Done])))
     = I2C_ADDR_PAGE2"
proof -
  have a: "i2c_addr (opened 1 [Done, Done, Done, Fail, Done]) = I2C_ADDR_PAGE2"
    "i2c_addr (opened 1 [Done, Done, Got [2], Done]) = I2C_ADDR_PAGE2"
    by (simp_all add: opened_def)
  have b: "Ioctl I2C_ADDR_PAGE2 False \<notin>
             set (trace (snd (flash_read 0 1 (opened 1 [Done, Done, Done, Fail, Done]))))"
    "Ioctl I2C_ADDR_PAGE2 False \<notin>
             set (trace (snd (probe_active_flash_partition (opened 1 [Done, Done, Got [2], Done]))))"
    by (simp_all add: run_defs)
  have c: "fst (flash_read 0 1 (opened 1 [Done, Done, Done, Fail, Done])) =
     Inl (Err BUS_FAILURE ''i2c read'' [])"
    "fst (probe_active_flash_partition (opened 1 [Done, Done, Got [2], Done])) = Inr 2"
    by (simp_all add: run_defs)
  show ?thesis
    using guard_restores_page2 [OF a(1), of 0 1] guard_restores_page2 [OF a(2)] b c
    by blast
qed


subsection \<open>Invariants of a whole update\<close>







subsection \<open>What is written during a run\<close>

text \<open>
  \<open>since old P s\<close>: the trace of \<open>s\<close> is \<open>old\<close> with newer events before it,
  and every newer event satisfies \<open>P\<close>. \<open>only_writes P\<close>: \<open>P\<close> restricts
  nothing but writes, and among those neither the one-byte transfers that address a
  register nor the two-byte writes of a register other than
  \<open>REG_ADDR_FLASH_ADDR_HI\<close>.
\<close>

definition since :: "event list \<Rightarrow> (event \<Rightarrow> bool) \<Rightarrow> lspcon \<Rightarrow> bool" where
  "since old P s = (\<exists>new. trace s = new @ old \<and> list_all P new)"




lemma since_tape [simp]: "since old P (s\<lparr>tape := t\<rparr>) = since old P s"
  by (simp add: since_def)

lemma since_addr [simp]: "since old P (s\<lparr>i2c_addr := a\<rparr>) = since old P s"
  by (simp add: since_def)

lemma since_next_reply: "since old P (snd (next_reply s)) = since old P s"
  by (simp add: next_reply_def split: list.splits)




















subsection \<open>A complete successful update\<close>







lemma passes_get_bytes: "passes (fu_firmware_get_bytes (Some blob)) [] blob"
  by (simp add: fu_firmware_get_bytes_def passes_succeed)














subsection \<open>Target partition\<close>




subsection \<open>Flag record\<close>





section \<open>Goodix fingerprint sensor (src/plugins/goodix-fp/fu-goodixfp-device.c)\<close>

subsection \<open>Protocol helpers\<close>

text \<open>
  The driver frames its commands with the helpers of \<open>fu-goodixfp-common.h\<close>, which is
  not among the sources: the header struct, the command codes, \<open>init_pack_header\<close>,
  \<open>gx_proto_crc32_calc\<close>, \<open>gx_proto_parse_header\<close> and \<open>gx_proto_parse_body\<close>. They
  are parameters of the model, collected in one record, and each property below holds
  for every value of them.

  Of a header the driver reads \<open>cmd0\<close> and \<open>len\<close>; of a response, \<open>result\<close> and
  \<open>version_info.fwversion\<close>. \<open>init_pack_header\<close> yields the \<open>PACKAGE_HEADER_SIZE\<close>
  bytes of the header struct it fills. The parsers and the checksum see the bytes they
  are given a pointer and a length for. \<open>gx_proto_parse_body\<close> writes into the
  caller's response struct, so it maps the response before the call to the one after
  it.
\<close>

definition GX_FLASH_TRANSFER_BLOCK_SIZE :: nat where
  [simp]: "GX_FLASH_TRANSFER_BLOCK_SIZE = 1000"

record pack_header =
  header_cmd0 :: u8
  header_len :: u16

record gxfp_cmd_response =
  response_result :: u8
  version_info_fwversion :: "u8 list"

definition zeroed_response :: gxfp_cmd_response where
  "zeroed_response = \<lparr>response_result = 0, version_info_fwversion = replicate 8 0\<rparr>"

record gx_proto =
  PACKAGE_HEADER_SIZE :: nat
  GX_CMD_ACK :: u8
  GX_CMD_VERSION :: u8
  GX_CMD1_DEFAULT :: u8
  GX_CMD_UPGRADE :: u8
  GX_CMD_UPGRADE_INIT :: u8
  GX_CMD_UPGRADE_DATA :: u8
  GX_CMD_RESET :: u8
  init_pack_header :: "nat \<Rightarrow> u8 \<Rightarrow> u8 \<Rightarrow> u8 \<Rightarrow> u8 list"
  gx_proto_crc32_calc :: "u8 list \<Rightarrow> u32"
  gx_proto_parse_header :: "u8 list \<Rightarrow> pack_header option"
  gx_proto_parse_body :: "u8 \<Rightarrow> u8 list \<Rightarrow> gxfp_cmd_response \<Rightarrow> gxfp_cmd_response option"

text \<open>
  \<open>fu_byte_array_append_uint32 (buf, v, G_LITTLE_ENDIAN)\<close> appends these four bytes,
  and \<open>GUINT32_FROM_LE (*(guint32 *) p)\<close> reads four bytes back as the value they
  encode.
\<close>

definition uint32_le_bytes :: "u32 \<Rightarrow> u8 list" where
  "uint32_le_bytes v = [ucast v, ucast (drop_bit 8 v), ucast (drop_bit 16 v), ucast (drop_bit 24 v)]"

definition uint32_from_le :: "u8 list \<Rightarrow> u32" where
  "uint32_from_le bs =
     ucast (bs ! 0) OR push_bit 8 (ucast (bs ! 1)) OR push_bit 16 (ucast (bs ! 2))
       OR push_bit 24 (ucast (bs ! 3))"

subsection \<open>The device and the USB bus\<close>

text \<open>
  As for the LSPCON, the bus is a tape of answers, one for each bulk transfer, and the
  transfers, status and progress reports and log lines are recorded in a trace, newest
  first. A bulk OUT transfer is answered by the number of bytes that went out. A bulk IN
  transfer is answered by what the receive buffer holds afterwards, all of it, and the
  number of bytes received: the buffer comes from \<open>g_byte_array_set_size\<close>, which does
  not clear it, so what lies behind the received bytes is not the driver's to choose. An
  answer of the wrong kind or of an impossible size is a failed transfer, and so is
  every transfer after the end of the tape.
\<close>

datatype usb_reply = Refused | Wrote nat | Filled "u8 list" nat

datatype usb_event =
    BulkOut "u8 list" "nat option"
  | BulkIn "(u8 list \<times> nat) option"
  | SetStatus fwupd_status
  | SetProgress nat nat
  | Debug string
  | Warning string

record goodixfp =
  gx_version :: "string option"
  wait_for_replug :: bool
  usb_tape :: "usb_reply list"
  usb_trace :: "usb_event list"

type_synonym 'a gx = "goodixfp \<Rightarrow> (error + 'a) \<times> goodixfp"

definition next_usb_reply :: "goodixfp \<Rightarrow> usb_reply \<times> goodixfp" where
  "next_usb_reply s =
     (case usb_tape s of [] \<Rightarrow> (Refused, s) | r # rs \<Rightarrow> (r, s\<lparr>usb_tape := rs\<rparr>))"

definition record_usb :: "usb_event \<Rightarrow> goodixfp \<Rightarrow> goodixfp" where
  "record_usb e s = s\<lparr>usb_trace := e # usb_trace s\<rparr>"

definition g_usb_device_bulk_transfer_out :: "u8 list \<Rightarrow> nat gx" where
  "g_usb_device_bulk_transfer_out data s =
     (case next_usb_reply s of
        (Wrote n, s') \<Rightarrow>
          if n \<le> length data then (Inr n, record_usb (BulkOut data (Some n)) s')
          else (Inl (Err BUS_FAILURE ''bulk transfer'' []), record_usb (BulkOut data None) s')
      | (_, s') \<Rightarrow> (Inl (Err BUS_FAILURE ''bulk transfer'' []), record_usb (BulkOut data None) s'))"

definition g_usb_device_bulk_transfer_in :: "nat \<Rightarrow> (u8 list \<times> nat) gx" where
  "g_usb_device_bulk_transfer_in sz s =
     (case next_usb_reply s of
        (Filled buf n, s') \<Rightarrow>
          if length buf = sz \<and> n \<le> sz then (Inr (buf, n), record_usb (BulkIn (Some (buf, n))) s')
          else (Inl (Err BUS_FAILURE ''bulk transfer'' []), record_usb (BulkIn None) s')
      | (_, s') \<Rightarrow> (Inl (Err BUS_FAILURE ''bulk transfer'' []), record_usb (BulkIn None) s'))"

definition fu_device_set_status_usb :: "fwupd_status \<Rightarrow> unit gx" where
  "fu_device_set_status_usb st s = (Inr (), record_usb (SetStatus st) s)"

definition fu_device_set_progress_full_usb :: "nat \<Rightarrow> nat \<Rightarrow> unit gx" where
  "fu_device_set_progress_full_usb n tot s = (Inr (), record_usb (SetProgress n tot) s)"

subsection \<open>Sending and receiving a frame\<close>

text \<open>
  \<open>goodixfp_device_cmd_send\<close>: a zero-length packet, then header, payload and checksum
  in one transfer. The dump made when \<open>FWUPD_GOODIXFP_VERBOSE\<close> is set changes nothing
  and is left out, here and in the receiver.
\<close>

definition goodixfp_device_cmd_send :: "gx_proto \<Rightarrow> u8 \<Rightarrow> u8 \<Rightarrow> u8 \<Rightarrow> u8 list \<Rightarrow> unit gx" where
  "goodixfp_device_cmd_send p cmd0 cmd1 pkg_eop request =
     (let header = init_pack_header p (length request) cmd0 cmd1 pkg_eop;
          framed = header @ request;
          crc_calc = gx_proto_crc32_calc p (take (PACKAGE_HEADER_SIZE p + length request) framed);
          buf = framed @ uint32_le_bytes crc_calc
      in and_then (prefix_error ''failed to request: '' [] (g_usb_device_bulk_transfer_out [])) (\<lambda>_.
         and_then (prefix_error ''failed to request: '' [] (g_usb_device_bulk_transfer_out buf))
           (\<lambda>actual_len.
         if actual_len \<noteq> length buf
         then fail_with (Err FWUPD_ERROR_INTERNAL ''Invalid length'' [])
         else succeed ())))"

lemma bulk_transfer_in_tape:
  "g_usb_device_bulk_transfer_in sz s = (Inr x, s') \<Longrightarrow> length (usb_tape s') < length (usb_tape s)"
  by (auto simp: g_usb_device_bulk_transfer_in_def next_usb_reply_def record_usb_def
           split: list.splits usb_reply.splits if_splits)

text \<open>
  \<open>goodixfp_device_cmd_recv\<close>. Each turn of \<open>while (1)\<close> makes one bulk IN transfer into
  a fresh buffer of \<open>GX_FLASH_TRANSFER_BLOCK_SIZE\<close> bytes, so the loop ends with the
  tape at the latest. The checksum is computed over the first
  \<open>PACKAGE_HEADER_SIZE + header.len\<close> bytes of the buffer and compared with the four
  bytes behind them, whatever the number of bytes received; where that reaches past
  the end of the buffer the C code has no defined behaviour, which the model reports as
  \<open>READ_PAST_BUFFER\<close>.
\<close>

function goodixfp_device_cmd_recv ::
  "gx_proto \<Rightarrow> gxfp_cmd_response \<Rightarrow> bool \<Rightarrow> gxfp_cmd_response gx" where
  "goodixfp_device_cmd_recv p presponse data_reply s =
     (case g_usb_device_bulk_transfer_in GX_FLASH_TRANSFER_BLOCK_SIZE s of
        (Inl e, s') \<Rightarrow> (Inl (g_prefix_error ''failed to reply: '' [] e), s')
      | (Inr (reply, actual_len), s') \<Rightarrow>
          if actual_len = 0 then goodixfp_device_cmd_recv p presponse data_reply s'
          else
            (case gx_proto_parse_header p (take actual_len reply) of
               None \<Rightarrow> (Inl (Err FWUPD_ERROR_INTERNAL ''Invalid value'' []), s')
             | Some header \<Rightarrow>
                 let covered = PACKAGE_HEADER_SIZE p + unat (header_len header)
                 in if length reply < covered + 4
                    then (Inl (Err READ_PAST_BUFFER ''reply->data'' [covered + 4]), s')
                    else if gx_proto_crc32_calc p (take covered reply)
                            \<noteq> uint32_from_le (take 4 (drop covered reply))
                    then (Inl (Err FWUPD_ERROR_INTERNAL ''Invalid checksum'' []), s')
                    else
                      (case gx_proto_parse_body p (header_cmd0 header)
                              (take (unat (header_len header)) (drop (PACKAGE_HEADER_SIZE p) reply))
                              presponse of
                         None \<Rightarrow> (Inl (Err FWUPD_ERROR_INTERNAL ''Invalid value'' []), s')
                       | Some parsed \<Rightarrow>
                           if header_cmd0 header = GX_CMD_ACK p \<and> data_reply
                           then goodixfp_device_cmd_recv p parsed data_reply s'
                           else (Inr parsed, s'))))"
  by pat_completeness auto

termination
  by (relation "measure (\<lambda>(p, presponse, data_reply, s). length (usb_tape s))")
     (auto dest: bulk_transfer_in_tape [OF sym])

declare goodixfp_device_cmd_recv.simps [simp del]

definition fu_goodixfp_device_cmd_xfer ::
  "gx_proto \<Rightarrow> u8 \<Rightarrow> u8 \<Rightarrow> u8 \<Rightarrow> u8 list \<Rightarrow> gxfp_cmd_response \<Rightarrow> bool \<Rightarrow> gxfp_cmd_response gx" where
  "fu_goodixfp_device_cmd_xfer p cmd0 cmd1 pkg_eop request presponse data_reply =
     and_then (goodixfp_device_cmd_send p cmd0 cmd1 pkg_eop request) (\<lambda>_.
     goodixfp_device_cmd_recv p presponse data_reply)"

subsection \<open>Version, setup and attach\<close>



text \<open>
  \<open>fu_goodixfp_device_update_init\<close> returns \<open>FALSE\<close> without an error when the device
  answers with a result that is not zero.
\<close>

definition fu_goodixfp_device_update_init :: "gx_proto \<Rightarrow> unit gx" where
  "fu_goodixfp_device_update_init p =
     and_then (fu_goodixfp_device_cmd_xfer p (GX_CMD_UPGRADE p) (GX_CMD_UPGRADE_INIT p) 0 []
                 zeroed_response True) (\<lambda>reponse.
     if response_result reponse = 0 then succeed ()
     else fail_with (Err NO_ERROR_SET [] []))"

definition fu_goodixfp_device_attach :: "gx_proto \<Rightarrow> unit gx" where
  "fu_goodixfp_device_attach p =
     and_then (fu_device_set_status_usb FWUPD_STATUS_DEVICE_RESTART) (\<lambda>_.
     and_then (fu_goodixfp_device_cmd_xfer p (GX_CMD_RESET p) 0x03 0 [] zeroed_response False)
       (\<lambda>reponse.
     if response_result reponse \<noteq> 0 then fail_with (Err NO_ERROR_SET [] [])
     else (\<lambda>s. (Inr (), s\<lparr>wait_for_replug := True\<rparr>))))"


subsection \<open>Writing the firmware\<close>

text \<open>
  Modelled from the spec: \<open>fu_firmware_get_image_default_bytes\<close> and
  \<open>fu_chunk_array_new_from_bytes\<close> are library calls whose code is not among the
  sources. A firmware object either holds its bytes or has none to give. The chunker
  cuts the image into consecutive pieces of the packet size, the last one shorter when
  the size does not divide the length; of a chunk the driver uses the data only.
\<close>

definition fu_firmware_get_image_default_bytes :: "u8 list option \<Rightarrow> (u8 list) gx" where
  "fu_firmware_get_image_default_bytes firmware =
     (case firmware of
        None \<Rightarrow> fail_with (Err FWUPD_ERROR_INTERNAL ''no payload set'' [])
      | Some blob \<Rightarrow> succeed blob)"

function fu_chunk_array_new_from_bytes :: "u8 list \<Rightarrow> nat \<Rightarrow> u8 list list" where
  "fu_chunk_array_new_from_bytes blob packet_sz =
     (if blob = [] \<or> packet_sz = 0 then []
      else take packet_sz blob # fu_chunk_array_new_from_bytes (drop packet_sz blob) packet_sz)"
  by pat_completeness auto

termination
  by (relation "measure (\<lambda>(blob, packet_sz). length blob)") auto

declare fu_chunk_array_new_from_bytes.simps [simp del]

text \<open>
  \<open>g_set_error (error, FWUPD_ERROR, FWUPD_ERROR_WRITE, "...: %s", error_local->message)\<close>.
  Where the callee has returned \<open>FALSE\<close> without setting \<open>error_local\<close> the message is
  read through a \<open>NULL\<close> pointer.
\<close>

definition write_error :: "string \<Rightarrow> error \<Rightarrow> error" where
  "write_error what error_local =
     (if error_code_of error_local = NO_ERROR_SET
      then Err NULL_DEREFERENCE ''error_local->message'' []
      else Err FWUPD_ERROR_WRITE (what @ error_message error_local) (error_values error_local))"

text \<open>
  The loop over the chunks. \<open>wait_data_reply\<close>, \<open>pkg_eop\<close> and \<open>reponse\<close> are declared
  outside the loop and keep their values from one turn to the next; \<open>i\<close> and
  \<open>chunks->len\<close> are \<open>guint\<close>, and the test \<open>i == chunks->len - 1\<close> is made only where
  \<open>i < chunks->len\<close>, so the subtraction does not wrap.
\<close>

function write_chunks ::
  "gx_proto \<Rightarrow> u8 list list \<Rightarrow> nat \<Rightarrow> bool \<Rightarrow> u8 \<Rightarrow> gxfp_cmd_response \<Rightarrow> unit gx" where
  "write_chunks p chunks i wait_data_reply pkg_eop reponse s =
     (if i < length chunks
      then
        (let request = chunks ! i;
             wait_data_reply = (if i = length chunks - 1 then True else wait_data_reply);
             pkg_eop = (if i = length chunks - 1 then 0 else pkg_eop)
         in case fu_goodixfp_device_cmd_xfer p (GX_CMD_UPGRADE p) (GX_CMD_UPGRADE_DATA p)
                   pkg_eop request reponse wait_data_reply s of
              (Inl error_local, s') \<Rightarrow> (Inl (write_error ''failed to write: '' error_local), s')
            | (Inr reponse, s') \<Rightarrow>
                write_chunks p chunks (i + 1) wait_data_reply pkg_eop reponse
                  (snd (fu_device_set_progress_full_usb i (length chunks) s')))
      else (Inr (), s))"
  by pat_completeness auto

termination
  by (relation "measure (\<lambda>(p, chunks, i, wait_data_reply, pkg_eop, reponse, s). length chunks - i)")
     auto

declare write_chunks.simps [simp del]

definition fu_goodixfp_device_write_firmware :: "gx_proto \<Rightarrow> u8 list option \<Rightarrow> unit gx" where
  "fu_goodixfp_device_write_firmware p firmware =
     and_then (fu_firmware_get_image_default_bytes firmware) (\<lambda>fw.
     let chunks = fu_chunk_array_new_from_bytes fw GX_FLASH_TRANSFER_BLOCK_SIZE
     in and_then (fu_device_set_status_usb FWUPD_STATUS_DEVICE_WRITE) (\<lambda>_.
        and_then (\<lambda>s. case fu_goodixfp_device_update_init p s of
                         (Inl error_local, s') \<Rightarrow>
                           (Inl (write_error ''failed to init update: '' error_local), s')
                       | (Inr ok, s') \<Rightarrow> (Inr ok, s')) (\<lambda>_.
        write_chunks p chunks 0 False 0x80 zeroed_response)))"

text \<open>
  The bytes \<open>goodixfp_device_cmd_send\<close> puts on the bus for a command: header, payload
  and checksum.
\<close>

definition frame :: "gx_proto \<Rightarrow> u8 \<Rightarrow> u8 \<Rightarrow> u8 \<Rightarrow> u8 list \<Rightarrow> u8 list" where
  "frame p cmd0 cmd1 pkg_eop payload =
     (let framed = init_pack_header p (length payload) cmd0 cmd1 pkg_eop @ payload
      in framed @ uint32_le_bytes
                    (gx_proto_crc32_calc p (take (PACKAGE_HEADER_SIZE p + length payload) framed)))"

subsection \<open>An example framer and device\<close>

text \<open>
  Modelled from the spec: section 4.1 describes a frame as header bytes (payload length,
  cmd0, cmd1, end-of-package flag), the payload, and a little-endian CRC32 over header
  and payload. The framer below is one such layout, with a 16-bit little-endian length
  and the reflected CRC-32 of polynomial \<open>0xEDB88320\<close>; its command codes and its body
  parser (first byte the result, the next eight the version) are chosen for the
  examples. No property below depends on it; it serves to run the driver on concrete
  input.
\<close>

definition crc32_shift :: "u32 \<Rightarrow> u32" where
  "crc32_shift c = (if bit c 0 then drop_bit 1 c XOR 0xEDB88320 else drop_bit 1 c)"

definition crc32_update :: "u32 \<Rightarrow> u8 \<Rightarrow> u32" where
  "crc32_update c b = (crc32_shift ^^ 8) (c XOR ucast b)"

definition crc32 :: "u8 list \<Rightarrow> u32" where
  "crc32 bs = NOT (foldl crc32_update (- 1) bs)"

definition framer :: gx_proto where
  "framer =
     \<lparr>PACKAGE_HEADER_SIZE = 5,
      GX_CMD_ACK = 0xaa,
      GX_CMD_VERSION = 0xd0,
      GX_CMD1_DEFAULT = 0x00,
      GX_CMD_UPGRADE = 0x80,
      GX_CMD_UPGRADE_INIT = 0x00,
      GX_CMD_UPGRADE_DATA = 0x01,
      GX_CMD_RESET = 0xb4,
      init_pack_header = (\<lambda>n cmd0 cmd1 pkg_eop. [of_nat n, of_nat (n div 256), cmd0, cmd1, pkg_eop]),
      gx_proto_crc32_calc = crc32,
      gx_proto_parse_header = (\<lambda>buf.
        if length buf < 5 then None
        else Some \<lparr>header_cmd0 = buf ! 2,
                   header_len = ucast (buf ! 0) OR push_bit 8 (ucast (buf ! 1))\<rparr>),
      gx_proto_parse_body = (\<lambda>cmd0 body presponse.
        case body of
          [] \<Rightarrow> None
        | b # bs \<Rightarrow> Some \<lparr>response_result = b,
                           version_info_fwversion = take 8 (bs @ replicate 8 0)\<rparr>)\<rparr>"

text \<open>
  A reply of the device as the receive buffer shows it, and a device just plugged in
  with a given tape.
\<close>

definition received :: "u8 list \<Rightarrow> usb_reply" where
  "received bs = Filled (bs @ replicate (GX_FLASH_TRANSFER_BLOCK_SIZE - length bs) 0) (length bs)"

definition plugged :: "usb_reply list \<Rightarrow> goodixfp" where
  "plugged replies =
     \<lparr>gx_version = None, wait_for_replug = False, usb_tape = replies, usb_trace = []\<rparr>"

definition ack_frame :: "u8 list" where
  "ack_frame = frame framer 0xaa 0 0 [0]"

definition result_frame :: "u8 list" where
  "result_frame = frame framer 0x80 0 0 [0]"

definition version_frame :: "u8 list" where
  "version_frame = frame framer 0xd0 0 0 [0, 0x31, 0x2e, 0x30]"

definition version_parsed :: gxfp_cmd_response where
  "version_parsed = \<lparr>response_result = 0, version_info_fwversion = [0x31, 0x2e, 0x30, 0, 0, 0, 0, 0]\<rparr>"

section \<open>Properties of the Goodix driver\<close>

subsection \<open>Checksum bytes\<close>

lemma length_uint32_le_bytes [simp]: "length (uint32_le_bytes v) = 4"
  by (simp add: uint32_le_bytes_def)

lemma uint32_le_roundtrip: "uint32_from_le (uint32_le_bytes v) = v"
proof (rule bit_word_eqI)
  fix n :: nat
  assume "n < LENGTH(32)"
  then have n: "n < 32" by simp
  consider "n < 8" | "8 \<le> n" "n < 16" | "16 \<le> n" "n < 24" | "24 \<le> n"
    by linarith
  then show "bit (uint32_from_le (uint32_le_bytes v)) n = bit v n"
  proof cases
    case 1 then show ?thesis
      using n by (simp add: uint32_from_le_def uint32_le_bytes_def bit_simps)
  next
    case 2 then show ?thesis
      using n by (auto simp: uint32_from_le_def uint32_le_bytes_def bit_simps)
  next
    case 3 then show ?thesis
      using n by (auto simp: uint32_from_le_def uint32_le_bytes_def bit_simps)
  next
    case 4 then show ?thesis
      using n by (auto simp: uint32_from_le_def uint32_le_bytes_def bit_simps)
  qed
qed

subsection \<open>The receive loop\<close>

text \<open>
  \<open>read_done s\<close> is the state one bulk IN transfer after \<open>s\<close>. A read holds a valid
  frame when its header parses, header, payload and checksum lie inside the buffer, the
  checksum matches and the body parses.
\<close>

definition read_done :: "goodixfp \<Rightarrow> goodixfp" where
  "read_done s = snd (g_usb_device_bulk_transfer_in GX_FLASH_TRANSFER_BLOCK_SIZE s)"

definition valid_frame ::
  "gx_proto \<Rightarrow> u8 list \<Rightarrow> nat \<Rightarrow> gxfp_cmd_response \<Rightarrow> pack_header \<Rightarrow> gxfp_cmd_response \<Rightarrow> bool" where
  "valid_frame p reply actual_len presponse header parsed =
     (let covered = PACKAGE_HEADER_SIZE p + unat (header_len header)
      in gx_proto_parse_header p (take actual_len reply) = Some header
         \<and> covered + 4 \<le> length reply
         \<and> gx_proto_crc32_calc p (take covered reply) = uint32_from_le (take 4 (drop covered reply))
         \<and> gx_proto_parse_body p (header_cmd0 header)
              (take (unat (header_len header)) (drop (PACKAGE_HEADER_SIZE p) reply)) presponse
            = Some parsed)"

lemma bulk_in_filled:
  assumes "usb_tape s = Filled reply n # rest" "length reply = GX_FLASH_TRANSFER_BLOCK_SIZE"
    "n \<le> GX_FLASH_TRANSFER_BLOCK_SIZE"
  shows "g_usb_device_bulk_transfer_in GX_FLASH_TRANSFER_BLOCK_SIZE s = (Inr (reply, n), read_done s)"
    and "usb_tape (read_done s) = rest"
    and "gx_version (read_done s) = gx_version s"
  using assms
  by (simp_all add: read_done_def g_usb_device_bulk_transfer_in_def next_usb_reply_def record_usb_def)

lemma recv_zero_length:
  assumes "usb_tape s = Filled reply 0 # rest" "length reply = GX_FLASH_TRANSFER_BLOCK_SIZE"
  shows "goodixfp_device_cmd_recv p presponse data_reply s
         = goodixfp_device_cmd_recv p presponse data_reply (read_done s)"
  by (subst goodixfp_device_cmd_recv.simps) (simp add: bulk_in_filled(1) [OF assms(1,2) le0, unfolded GX_FLASH_TRANSFER_BLOCK_SIZE_def])

lemma recv_valid_frame:
  assumes "usb_tape s = Filled reply n # rest" "length reply = GX_FLASH_TRANSFER_BLOCK_SIZE"
    "n \<le> GX_FLASH_TRANSFER_BLOCK_SIZE" "0 < n"
    "valid_frame p reply n presponse header parsed"
  shows "goodixfp_device_cmd_recv p presponse data_reply s
         = (if header_cmd0 header = GX_CMD_ACK p \<and> data_reply
            then goodixfp_device_cmd_recv p parsed data_reply (read_done s)
            else (Inr parsed, read_done s))"
  using assms(4,5)
  by (subst goodixfp_device_cmd_recv.simps)
     (simp add: bulk_in_filled(1) [OF assms(1,2,3), unfolded GX_FLASH_TRANSFER_BLOCK_SIZE_def] valid_frame_def Let_def)

lemma recv_invalid_frame:
  assumes "usb_tape s = Filled reply n # rest" "length reply = GX_FLASH_TRANSFER_BLOCK_SIZE"
    "n \<le> GX_FLASH_TRANSFER_BLOCK_SIZE" "0 < n"
    "\<forall>header parsed. \<not> valid_frame p reply n presponse header parsed"
  shows "\<exists>e. goodixfp_device_cmd_recv p presponse data_reply s = (Inl e, read_done s)"
  using assms(4,5)
  by (subst goodixfp_device_cmd_recv.simps)
     (auto simp add: bulk_in_filled(1) [OF assms(1,2,3), unfolded GX_FLASH_TRANSFER_BLOCK_SIZE_def] valid_frame_def Let_def split: option.splits)

lemma recv_bad_checksum:
  assumes "usb_tape s = Filled reply n # rest" "length reply = GX_FLASH_TRANSFER_BLOCK_SIZE"
    "n \<le> GX_FLASH_TRANSFER_BLOCK_SIZE" "0 < n"
    "gx_proto_parse_header p (take n reply) = Some header"
    "PACKAGE_HEADER_SIZE p + unat (header_len header) + 4 \<le> GX_FLASH_TRANSFER_BLOCK_SIZE"
    "gx_proto_crc32_calc p (take (PACKAGE_HEADER_SIZE p + unat (header_len header)) reply)
     \<noteq> uint32_from_le (take 4 (drop (PACKAGE_HEADER_SIZE p + unat (header_len header)) reply))"
  shows "goodixfp_device_cmd_recv p presponse data_reply s
         = (Inl (Err FWUPD_ERROR_INTERNAL ''Invalid checksum'' []), read_done s)"
  using assms(2,4,5,6,7)
  by (subst goodixfp_device_cmd_recv.simps)
     (simp add: bulk_in_filled(1) [OF assms(1,2,3), unfolded GX_FLASH_TRANSFER_BLOCK_SIZE_def] Let_def)

text \<open>
  C7: in the receive loop a zero-length read is skipped and the loop reads again; a
  read that is not empty is parsed as a frame, and one that does not hold a valid frame
  ends the loop with an error; a valid frame whose command is the acknowledgement code
  is discarded, and the loop continues, exactly when the caller waits for a data reply;
  every other valid frame is returned. In particular three zero-length reads followed
  by a valid frame that the loop does not discard give that frame's parsed content,
  and the reads behind it stay on the bus.
\<close>

theorem cmd_recv_loop:
  assumes "usb_tape s = Filled reply n # rest"
    and "length reply = GX_FLASH_TRANSFER_BLOCK_SIZE"
    and "n \<le> GX_FLASH_TRANSFER_BLOCK_SIZE"
  shows "usb_tape (read_done s) = rest \<and>
         (n = 0 \<longrightarrow>
            goodixfp_device_cmd_recv p presponse data_reply s
            = goodixfp_device_cmd_recv p presponse data_reply (read_done s)) \<and>
         (0 < n \<longrightarrow> (\<forall>h r. \<not> valid_frame p reply n presponse h r) \<longrightarrow>
            (\<exists>e. goodixfp_device_cmd_recv p presponse data_reply s = (Inl e, read_done s))) \<and>
         (0 < n \<longrightarrow> valid_frame p reply n presponse header parsed \<longrightarrow>
            goodixfp_device_cmd_recv p presponse data_reply s
            = (if header_cmd0 header = GX_CMD_ACK p \<and> data_reply
               then goodixfp_device_cmd_recv p parsed data_reply (read_done s)
               else (Inr parsed, read_done s))) \<and>
         (0 < n \<longrightarrow> valid_frame p reply n presponse header parsed \<longrightarrow>
          \<not> (header_cmd0 header = GX_CMD_ACK p \<and> data_reply) \<longrightarrow>
          (\<forall>s0 z1 z2 z3.
             usb_tape s0 = Filled z1 0 # Filled z2 0 # Filled z3 0 # usb_tape s \<longrightarrow>
             length z1 = GX_FLASH_TRANSFER_BLOCK_SIZE \<longrightarrow>
             length z2 = GX_FLASH_TRANSFER_BLOCK_SIZE \<longrightarrow>
             length z3 = GX_FLASH_TRANSFER_BLOCK_SIZE \<longrightarrow>
             fst (goodixfp_device_cmd_recv p presponse data_reply s0) = Inr parsed \<and>
             usb_tape (snd (goodixfp_device_cmd_recv p presponse data_reply s0)) = rest))"
proof -
  have a: "usb_tape (read_done s) = rest"
    by (rule bulk_in_filled(2) [OF assms])
  have b: "n = 0 \<longrightarrow>
            goodixfp_device_cmd_recv p presponse data_reply s
            = goodixfp_device_cmd_recv p presponse data_reply (read_done s)"
    using recv_zero_length [OF _ assms(2)] assms(1) by simp
  have c: "0 < n \<longrightarrow> (\<forall>h r. \<not> valid_frame p reply n presponse h r) \<longrightarrow>
            (\<exists>e. goodixfp_device_cmd_recv p presponse data_reply s = (Inl e, read_done s))"
    using recv_invalid_frame [OF assms] by blast
  have d: "0 < n \<longrightarrow> valid_frame p reply n presponse header parsed \<longrightarrow>
            goodixfp_device_cmd_recv p presponse data_reply s
            = (if header_cmd0 header = GX_CMD_ACK p \<and> data_reply
               then goodixfp_device_cmd_recv p parsed data_reply (read_done s)
               else (Inr parsed, read_done s))"
    using recv_valid_frame [OF assms] by blast
  have e: "fst (goodixfp_device_cmd_recv p presponse data_reply s0) = Inr parsed \<and>
           usb_tape (snd (goodixfp_device_cmd_recv p presponse data_reply s0)) = rest"
    if n: "0 < n" and v: "valid_frame p reply n presponse header parsed"
      and k: "\<not> (header_cmd0 header = GX_CMD_ACK p \<and> data_reply)"
      and t0: "usb_tape s0 = Filled z1 0 # Filled z2 0 # Filled z3 0 # usb_tape s"
      and l1: "length z1 = GX_FLASH_TRANSFER_BLOCK_SIZE"
      and l2: "length z2 = GX_FLASH_TRANSFER_BLOCK_SIZE"
      and l3: "length z3 = GX_FLASH_TRANSFER_BLOCK_SIZE"
    for s0 z1 z2 z3
  proof -
    let ?a = "read_done s0"
    let ?b = "read_done ?a"
    let ?c = "read_done ?b"
    have t1: "usb_tape ?a = Filled z2 0 # Filled z3 0 # usb_tape s"
      by (rule bulk_in_filled(2) [OF t0 l1 le0])
    have t2: "usb_tape ?b = Filled z3 0 # usb_tape s"
      by (rule bulk_in_filled(2) [OF t1 l2 le0])
    have t3: "usb_tape ?c = Filled reply n # rest"
      using bulk_in_filled(2) [OF t2 l3 le0] assms(1) by simp
    have "goodixfp_device_cmd_recv p presponse data_reply s0
          = goodixfp_device_cmd_recv p presponse data_reply ?c"
      by (simp only: recv_zero_length [OF t0 l1] recv_zero_length [OF t1 l2]
            recv_zero_length [OF t2 l3])
    also have "\<dots> = (Inr parsed, read_done ?c)"
      using recv_valid_frame [OF t3 assms(2,3) n v, of data_reply] k by auto
    finally show ?thesis
      using bulk_in_filled(2) [OF t3 assms(2,3)] by simp
  qed
  show ?thesis using a b c d e by blast
qed

lemma replicate_5: "replicate 5 x = [x, x, x, x, x]"
  by (simp add: numeral_eq_Suc)

lemma version_frame_length: "length version_frame = 13"
  by (simp add: version_frame_def frame_def framer_def Let_def)

lemma version_frame_valid:
  "valid_frame framer (version_frame @ replicate 987 0) 13 presponse
     \<lparr>header_cmd0 = 0xd0, header_len = 4\<rparr> version_parsed"
  by (simp add: valid_frame_def version_frame_def frame_def framer_def Let_def
        version_parsed_def uint32_le_roundtrip replicate_5)

lemma acknowledged_runs:
  "fst (goodixfp_device_cmd_recv framer zeroed_response True
          (plugged [received [], received ack_frame, received [], received version_frame]))
     = Inr version_parsed"
  "usb_tape (snd (goodixfp_device_cmd_recv framer zeroed_response True
          (plugged [received [], received ack_frame, received [], received version_frame])))
     = []"
  "fst (goodixfp_device_cmd_recv framer zeroed_response False
          (plugged [received [], received ack_frame, received [], received version_frame]))
     = Inr zeroed_response"
  "usb_tape (snd (goodixfp_device_cmd_recv framer zeroed_response False
          (plugged [received [], received ack_frame, received [], received version_frame])))
     = [received [], received version_frame]"
  by (simp_all add: goodixfp_device_cmd_recv.simps g_usb_device_bulk_transfer_in_def
        next_usb_reply_def record_usb_def plugged_def received_def ack_frame_def
        version_frame_def version_parsed_def frame_def framer_def Let_def zeroed_response_def
        uint32_le_roundtrip replicate_5)

theorem cmd_recv_loop_witness:
  "fst (goodixfp_device_cmd_recv framer zeroed_response True
          (plugged [received [], received [], received [], received version_frame]))
     = Inr version_parsed \<and>
   usb_tape (snd (goodixfp_device_cmd_recv framer zeroed_response True
          (plugged [received [], received [], received [], received version_frame]))) = [] \<and>
   fst (goodixfp_device_cmd_recv framer zeroed_response True
          (plugged [received [], received ack_frame, received [], received version_frame]))
     = Inr version_parsed \<and>
   fst (goodixfp_device_cmd_recv framer zeroed_response False
          (plugged [received [], received ack_frame, received [], received version_frame]))
     = Inr zeroed_response \<and>
   usb_tape (snd (goodixfp_device_cmd_recv framer zeroed_response False
          (plugged [received [], received ack_frame, received [], received version_frame])))
     = [received [], received version_frame]"
proof -
  let ?s = "plugged [received version_frame]"
  have t: "usb_tape ?s = Filled (version_frame @ replicate 987 0) 13 # []"
    by (simp add: plugged_def received_def version_frame_length)
  have l: "length (version_frame @ replicate 987 0) = GX_FLASH_TRANSFER_BLOCK_SIZE"
    by (simp add: version_frame_length)
  have n: "13 \<le> GX_FLASH_TRANSFER_BLOCK_SIZE" by simp
  have k: "\<not> (header_cmd0 \<lparr>header_cmd0 = 0xd0, header_len = 4\<rparr> = GX_CMD_ACK framer \<and> True)"
    by (simp add: framer_def)
  have t0: "usb_tape (plugged [received [], received [], received [], received version_frame])
            = Filled (replicate 1000 0) 0 # Filled (replicate 1000 0) 0
              # Filled (replicate 1000 0) 0 # usb_tape ?s"
    by (simp add: plugged_def received_def)
  show ?thesis
    using cmd_recv_loop [OF t l n, where p = framer and presponse = zeroed_response
        and header = "\<lparr>header_cmd0 = 0xd0, header_len = 4\<rparr>" and parsed = version_parsed
        and data_reply = True]
      version_frame_valid [of zeroed_response] k t0 acknowledged_runs
    by simp
qed

subsection \<open>Checksum of a received frame\<close>

text \<open>
  C5: the receiver computes the checksum over header and payload, the first
  \<open>PACKAGE_HEADER_SIZE + header.len\<close> bytes read, and compares it with the four bytes
  behind them read as a little-endian value. For every read whose header parses and
  whose frame lies inside the receive buffer, if the two differ the receiver fails with
  \<open>FWUPD_ERROR_INTERNAL\<close>, "Invalid checksum", having read nothing further, and so does
  the exchange it is part of; this does not depend on the command of the frame nor on
  whether the caller waits for a data reply.
\<close>

theorem cmd_recv_checksum_mismatch:
  assumes "usb_tape s = Filled reply n # rest"
    and "length reply = GX_FLASH_TRANSFER_BLOCK_SIZE"
    and "n \<le> GX_FLASH_TRANSFER_BLOCK_SIZE" and "0 < n"
    and "gx_proto_parse_header p (take n reply) = Some header"
    and "PACKAGE_HEADER_SIZE p + unat (header_len header) + 4 \<le> GX_FLASH_TRANSFER_BLOCK_SIZE"
    and "gx_proto_crc32_calc p (take (PACKAGE_HEADER_SIZE p + unat (header_len header)) reply)
         \<noteq> uint32_from_le
             (take 4 (drop (PACKAGE_HEADER_SIZE p + unat (header_len header)) reply))"
  shows "goodixfp_device_cmd_recv p presponse data_reply s
           = (Inl (Err FWUPD_ERROR_INTERNAL ''Invalid checksum'' []), read_done s) \<and>
         usb_tape (read_done s) = rest \<and>
         (\<forall>s0 cmd0 cmd1 pkg_eop request.
            goodixfp_device_cmd_send p cmd0 cmd1 pkg_eop request s0 = (Inr (), s) \<longrightarrow>
            fu_goodixfp_device_cmd_xfer p cmd0 cmd1 pkg_eop request presponse data_reply s0
              = (Inl (Err FWUPD_ERROR_INTERNAL ''Invalid checksum'' []), read_done s))"
  using recv_bad_checksum [OF assms, of presponse data_reply] bulk_in_filled(2) [OF assms(1,2,3)]
  by (simp add: fu_goodixfp_device_cmd_xfer_def and_then_def)

definition damaged_frame :: "u8 list" where
  "damaged_frame =
     (let framed = init_pack_header framer 4 0xd0 0 0 @ [0, 0x31, 0x2e, 0x30]
      in framed @ uint32_le_bytes (gx_proto_crc32_calc framer framed + 1))"

theorem cmd_recv_checksum_mismatch_witness:
  "fst (fu_goodixfp_device_cmd_xfer framer 0xd0 0 0 [0] zeroed_response True
          (plugged [Wrote 0, Wrote 10, received damaged_frame]))
     = Inl (Err FWUPD_ERROR_INTERNAL ''Invalid checksum'' []) \<and>
   usb_tape (snd (fu_goodixfp_device_cmd_xfer framer 0xd0 0 0 [0] zeroed_response True
          (plugged [Wrote 0, Wrote 10, received damaged_frame]))) = []"
proof -
  let ?start = "plugged [Wrote 0, Wrote 10, received damaged_frame]"
  let ?s = "snd (goodixfp_device_cmd_send framer 0xd0 0 0 [0] ?start)"
  let ?reply = "damaged_frame @ replicate 987 0"
  let ?h = "\<lparr>header_cmd0 = 0xd0, header_len = 4\<rparr>"
  have len: "length damaged_frame = 13"
    by (simp add: damaged_frame_def framer_def Let_def)
  have "fst (goodixfp_device_cmd_send framer 0xd0 0 0 [0] ?start) = Inr ()"
    by (simp add: goodixfp_device_cmd_send_def and_then_def prefix_error_def succeed_def
          g_usb_device_bulk_transfer_out_def next_usb_reply_def record_usb_def plugged_def
          framer_def Let_def)
  then have sent: "goodixfp_device_cmd_send framer 0xd0 0 0 [0] ?start = (Inr (), ?s)"
    by (cases "goodixfp_device_cmd_send framer 0xd0 0 0 [0] ?start") simp
  have t: "usb_tape ?s = Filled ?reply 13 # []"
    by (simp add: goodixfp_device_cmd_send_def and_then_def prefix_error_def succeed_def
          g_usb_device_bulk_transfer_out_def next_usb_reply_def record_usb_def plugged_def
          framer_def Let_def received_def len)
  have l: "length ?reply = GX_FLASH_TRANSFER_BLOCK_SIZE" by (simp add: len)
  have h: "gx_proto_parse_header framer (take 13 ?reply) = Some ?h"
    by (simp add: damaged_frame_def framer_def Let_def)
  have fits: "PACKAGE_HEADER_SIZE framer + unat (header_len ?h) + 4 \<le> GX_FLASH_TRANSFER_BLOCK_SIZE"
    by (simp add: framer_def)
  have bad: "gx_proto_crc32_calc framer
               (take (PACKAGE_HEADER_SIZE framer + unat (header_len ?h)) ?reply)
             \<noteq> uint32_from_le
                 (take 4 (drop (PACKAGE_HEADER_SIZE framer + unat (header_len ?h)) ?reply))"
    by (simp add: damaged_frame_def framer_def Let_def uint32_le_roundtrip)
  show ?thesis
    using cmd_recv_checksum_mismatch [OF t l _ _ h fits bad, of zeroed_response True] sent
    by simp
qed

subsection \<open>Chunks of a firmware image\<close>

text \<open>
  What a trace shows of an update: the frames that went out, oldest first (the
  zero-length packets left out), and the progress reports.
\<close>

definition frames_sent :: "usb_event list \<Rightarrow> u8 list list" where
  "frames_sent tr =
     concat (map (\<lambda>e. case e of BulkOut buf (Some n) \<Rightarrow> if buf = [] then [] else [buf] | _ \<Rightarrow> [])
                 (rev tr))"

definition progress_reported :: "usb_event list \<Rightarrow> (nat \<times> nat) list" where
  "progress_reported tr =
     concat (map (\<lambda>e. case e of SetProgress i n \<Rightarrow> [(i, n)] | _ \<Rightarrow> []) (rev tr))"

text \<open>
  The chunk loop as the claim words it: chunk \<open>i\<close> of \<open>n\<close> goes out with
  end-of-package byte \<open>0x80\<close> and no wait for a data reply, except the last one,
  \<open>i + 1 = n\<close>, which goes out with end-of-package byte 0 and waits; progress
  \<open>(i, n)\<close> is reported after each.
\<close>

fun transmit_chunks ::
  "gx_proto \<Rightarrow> u8 list list \<Rightarrow> nat list \<Rightarrow> gxfp_cmd_response \<Rightarrow> unit gx" where
  "transmit_chunks p chunks [] reponse s = (Inr (), s)"
| "transmit_chunks p chunks (i # later) reponse s =
     (case fu_goodixfp_device_cmd_xfer p (GX_CMD_UPGRADE p) (GX_CMD_UPGRADE_DATA p)
             (if i + 1 = length chunks then 0 else 0x80) (chunks ! i) reponse
             (i + 1 = length chunks) s of
        (Inl e, s') \<Rightarrow> (Inl (write_error ''failed to write: '' e), s')
      | (Inr reponse', s') \<Rightarrow>
          transmit_chunks p chunks later reponse' (record_usb (SetProgress i (length chunks)) s'))"

lemma write_chunks_stop:
  "write_chunks p chunks (length chunks) w e reponse s = (Inr (), s)"
  by (subst write_chunks.simps) simp

lemma write_chunks_last:
  assumes "i + 1 = length chunks"
  shows "write_chunks p chunks i w e reponse s
         = (case fu_goodixfp_device_cmd_xfer p (GX_CMD_UPGRADE p) (GX_CMD_UPGRADE_DATA p)
                   0 (chunks ! i) reponse True s of
              (Inl error_local, s') \<Rightarrow> (Inl (write_error ''failed to write: '' error_local), s')
            | (Inr reponse', s') \<Rightarrow> (Inr (), record_usb (SetProgress i (length chunks)) s'))"
proof -
  have i: "i < length chunks" "i = length chunks - 1" using assms by simp_all
  show ?thesis
    apply (subst write_chunks.simps)
    apply (simp only: i(1) if_True Let_def i(2) [symmetric] refl assms write_chunks_stop
             fu_device_set_progress_full_usb_def snd_conv)
    done
qed

lemma write_chunks_more:
  assumes "i + 1 < length chunks"
  shows "write_chunks p chunks i w e reponse s
         = (case fu_goodixfp_device_cmd_xfer p (GX_CMD_UPGRADE p) (GX_CMD_UPGRADE_DATA p)
                   e (chunks ! i) reponse w s of
              (Inl error_local, s') \<Rightarrow> (Inl (write_error ''failed to write: '' error_local), s')
            | (Inr reponse', s') \<Rightarrow>
                write_chunks p chunks (i + 1) w e reponse'
                  (record_usb (SetProgress i (length chunks)) s'))"
proof -
  have i: "i < length chunks" "i \<noteq> length chunks - 1" using assms by simp_all
  show ?thesis
    apply (subst write_chunks.simps)
    apply (simp only: i if_True if_False Let_def
             fu_device_set_progress_full_usb_def snd_conv)
    done
qed

lemma write_chunks_transmit:
  "i \<le> length chunks \<Longrightarrow>
   write_chunks p chunks i False 0x80 reponse s
   = transmit_chunks p chunks [i..<length chunks] reponse s"
proof (induction "length chunks - i" arbitrary: i reponse s)
  case 0
  then have "i = length chunks" by simp
  then show ?case by (simp add: write_chunks_stop)
next
  case (Suc k)
  then have lt: "i < length chunks" by simp
  show ?case
  proof (cases "i + 1 = length chunks")
    case True
    have one: "[i..<length chunks] = [i]"
      using True by (simp add: upt_conv_Cons)
    show ?thesis
      unfolding one write_chunks_last [OF True]
      using True by (simp split: prod.splits sum.splits)
  next
    case False
    then have more: "i + 1 < length chunks" "i + 1 \<le> length chunks" "k = length chunks - (i + 1)"
      using lt Suc.hyps(2) by simp_all
    have cons: "[i..<length chunks] = i # [i + 1..<length chunks]"
      using lt by (simp add: upt_conv_Cons)
    show ?thesis
      unfolding cons write_chunks_more [OF more(1)]
      using False Suc.hyps(1) [OF more(3) more(2)] by (simp split: prod.splits sum.splits)
  qed
qed

lemma frame_not_empty: "frame p cmd0 cmd1 pkg_eop payload \<noteq> []"
  by (simp add: frame_def Let_def uint32_le_bytes_def)

lemma recorded_in:
  "frames_sent (usb_trace (record_usb (BulkIn x) s)) = frames_sent (usb_trace s)"
  "progress_reported (usb_trace (record_usb (BulkIn x) s)) = progress_reported (usb_trace s)"
  by (simp_all add: frames_sent_def progress_reported_def record_usb_def)

lemma recorded_progress:
  "frames_sent (usb_trace (record_usb (SetProgress i n) s)) = frames_sent (usb_trace s)"
  "progress_reported (usb_trace (record_usb (SetProgress i n) s))
   = progress_reported (usb_trace s) @ [(i, n)]"
  by (simp_all add: frames_sent_def progress_reported_def record_usb_def)

lemma recorded_status:
  "frames_sent (usb_trace (record_usb (SetStatus st) s)) = frames_sent (usb_trace s)"
  "progress_reported (usb_trace (record_usb (SetStatus st) s)) = progress_reported (usb_trace s)"
  by (simp_all add: frames_sent_def progress_reported_def record_usb_def)

lemma bulk_in_trace:
  "frames_sent (usb_trace (snd (g_usb_device_bulk_transfer_in sz s))) = frames_sent (usb_trace s)"
  "progress_reported (usb_trace (snd (g_usb_device_bulk_transfer_in sz s)))
   = progress_reported (usb_trace s)"
  by (auto simp: g_usb_device_bulk_transfer_in_def next_usb_reply_def recorded_in
        frames_sent_def progress_reported_def record_usb_def
        split: list.splits usb_reply.splits)

lemma recv_trace:
  "frames_sent (usb_trace (snd (goodixfp_device_cmd_recv p presponse data_reply s)))
   = frames_sent (usb_trace s) \<and>
   progress_reported (usb_trace (snd (goodixfp_device_cmd_recv p presponse data_reply s)))
   = progress_reported (usb_trace s)"
proof (induction p presponse data_reply s rule: goodixfp_device_cmd_recv.induct)
  case (1 p presponse data_reply s)
  obtain res s' where b: "g_usb_device_bulk_transfer_in GX_FLASH_TRANSFER_BLOCK_SIZE s = (res, s')"
    by (cases "g_usb_device_bulk_transfer_in GX_FLASH_TRANSFER_BLOCK_SIZE s")
  have tr: "frames_sent (usb_trace s') = frames_sent (usb_trace s)"
    "progress_reported (usb_trace s') = progress_reported (usb_trace s)"
    using bulk_in_trace [of GX_FLASH_TRANSFER_BLOCK_SIZE s] b by simp_all
  show ?case
  proof (cases res)
    case (Inl e)
    then show ?thesis
      using b tr by (subst (1 2) goodixfp_device_cmd_recv.simps) simp
  next
    case (Inr x)
    obtain reply n where x: "x = (reply, n)" by (cases x)
    note ih = "1.IH" [OF b [symmetric, unfolded Inr x]]
    show ?thesis
      using b [unfolded GX_FLASH_TRANSFER_BLOCK_SIZE_def] Inr x tr ih
      apply (subst (1 2) goodixfp_device_cmd_recv.simps)
      apply (auto simp: Let_def split: option.splits)
      done
  qed
qed

lemma send_trace:
  assumes "fst (goodixfp_device_cmd_send p cmd0 cmd1 pkg_eop request s) = Inr ()"
  shows "frames_sent (usb_trace (snd (goodixfp_device_cmd_send p cmd0 cmd1 pkg_eop request s)))
         = frames_sent (usb_trace s) @ [frame p cmd0 cmd1 pkg_eop request]"
    and "progress_reported (usb_trace (snd (goodixfp_device_cmd_send p cmd0 cmd1 pkg_eop request s)))
         = progress_reported (usb_trace s)"
  using assms frame_not_empty [of p cmd0 cmd1 pkg_eop request]
  by (auto simp: goodixfp_device_cmd_send_def frame_def Let_def and_then_def prefix_error_def
        g_usb_device_bulk_transfer_out_def next_usb_reply_def fail_with_def succeed_def
        frames_sent_def progress_reported_def record_usb_def
        split: list.splits usb_reply.splits if_splits)

lemma xfer_trace:
  assumes "fu_goodixfp_device_cmd_xfer p cmd0 cmd1 pkg_eop request presponse data_reply s
           = (Inr r, s')"
  shows "frames_sent (usb_trace s') = frames_sent (usb_trace s) @ [frame p cmd0 cmd1 pkg_eop request]"
    and "progress_reported (usb_trace s') = progress_reported (usb_trace s)"
proof -
  obtain res s1 where snd: "goodixfp_device_cmd_send p cmd0 cmd1 pkg_eop request s = (res, s1)"
    by (cases "goodixfp_device_cmd_send p cmd0 cmd1 pkg_eop request s")
  have ok: "res = Inr ()" and rc: "goodixfp_device_cmd_recv p presponse data_reply s1 = (Inr r, s')"
    using assms snd
    by (auto simp: fu_goodixfp_device_cmd_xfer_def and_then_def split: sum.splits)
  have a: "frames_sent (usb_trace s1) = frames_sent (usb_trace s) @ [frame p cmd0 cmd1 pkg_eop request]"
    "progress_reported (usb_trace s1) = progress_reported (usb_trace s)"
    using send_trace [of p cmd0 cmd1 pkg_eop request s] snd ok by simp_all
  show "frames_sent (usb_trace s') = frames_sent (usb_trace s) @ [frame p cmd0 cmd1 pkg_eop request]"
    using recv_trace [of p presponse data_reply s1] rc a by simp
  show "progress_reported (usb_trace s') = progress_reported (usb_trace s)"
    using recv_trace [of p presponse data_reply s1] rc a by simp
qed

definition chunk_frame :: "gx_proto \<Rightarrow> u8 list list \<Rightarrow> nat \<Rightarrow> u8 list" where
  "chunk_frame p chunks i =
     frame p (GX_CMD_UPGRADE p) (GX_CMD_UPGRADE_DATA p)
       (if i + 1 = length chunks then 0 else 0x80) (chunks ! i)"

lemma transmit_trace:
  "fst (transmit_chunks p chunks js reponse s) = Inr () \<Longrightarrow>
   frames_sent (usb_trace (snd (transmit_chunks p chunks js reponse s)))
   = frames_sent (usb_trace s) @ map (chunk_frame p chunks) js \<and>
   progress_reported (usb_trace (snd (transmit_chunks p chunks js reponse s)))
   = progress_reported (usb_trace s) @ map (\<lambda>i. (i, length chunks)) js"
proof (induction js arbitrary: reponse s)
  case Nil
  then show ?case by simp
next
  case (Cons i js)
  let ?x = "fu_goodixfp_device_cmd_xfer p (GX_CMD_UPGRADE p) (GX_CMD_UPGRADE_DATA p)
             (if i + 1 = length chunks then 0 else 0x80) (chunks ! i) reponse
             (i + 1 = length chunks) s"
  obtain res s' where x: "?x = (res, s')" by (cases ?x)
  obtain r where r: "res = Inr r"
    using Cons.prems x by (cases res) simp_all
  let ?s = "record_usb (SetProgress i (length chunks)) s'"
  have step: "transmit_chunks p chunks (i # js) reponse s = transmit_chunks p chunks js r ?s"
    using x r by simp
  have ok: "fst (transmit_chunks p chunks js r ?s) = Inr ()"
    using Cons.prems step by simp
  show ?case
    unfolding step
    using Cons.IH [OF ok] xfer_trace [OF x [unfolded r]]
    by (simp add: recorded_progress chunk_frame_def)
qed

lemma update_init_trace:
  assumes "fu_goodixfp_device_update_init p s = (Inr (), s')"
  shows "frames_sent (usb_trace s')
         = frames_sent (usb_trace s) @ [frame p (GX_CMD_UPGRADE p) (GX_CMD_UPGRADE_INIT p) 0 []]"
    and "progress_reported (usb_trace s') = progress_reported (usb_trace s)"
proof -
  let ?x = "fu_goodixfp_device_cmd_xfer p (GX_CMD_UPGRADE p) (GX_CMD_UPGRADE_INIT p) 0 []
              zeroed_response True s"
  obtain res s1 where x: "?x = (res, s1)" by (cases ?x)
  obtain r where r: "res = Inr r" and s1: "s1 = s'"
    using assms x
    by (cases res)
       (auto simp: fu_goodixfp_device_update_init_def and_then_def fail_with_def succeed_def
          split: if_splits)
  show "frames_sent (usb_trace s')
         = frames_sent (usb_trace s) @ [frame p (GX_CMD_UPGRADE p) (GX_CMD_UPGRADE_INIT p) 0 []]"
    using xfer_trace(1) [OF x [unfolded r]] s1 by simp
  show "progress_reported (usb_trace s') = progress_reported (usb_trace s)"
    using xfer_trace(2) [OF x [unfolded r]] s1 by simp
qed

lemma write_firmware_trace:
  assumes "fst (fu_goodixfp_device_write_firmware p (Some fw) s) = Inr ()"
    and "chunks = fu_chunk_array_new_from_bytes fw GX_FLASH_TRANSFER_BLOCK_SIZE"
  shows "frames_sent (usb_trace (snd (fu_goodixfp_device_write_firmware p (Some fw) s)))
         = frames_sent (usb_trace s)
           @ frame p (GX_CMD_UPGRADE p) (GX_CMD_UPGRADE_INIT p) 0 []
           # map (chunk_frame p chunks) [0..<length chunks] \<and>
         progress_reported (usb_trace (snd (fu_goodixfp_device_write_firmware p (Some fw) s)))
         = progress_reported (usb_trace s) @ map (\<lambda>i. (i, length chunks)) [0..<length chunks]"
proof -
  let ?start = "record_usb (SetStatus FWUPD_STATUS_DEVICE_WRITE) s"
  obtain res s1 where u: "fu_goodixfp_device_update_init p ?start = (res, s1)"
    by (cases "fu_goodixfp_device_update_init p ?start")
  have wf: "fu_goodixfp_device_write_firmware p (Some fw) s
            = (case res of
                 Inl e \<Rightarrow> (Inl (write_error ''failed to init update: '' e), s1)
               | Inr ok \<Rightarrow> write_chunks p chunks 0 False 0x80 zeroed_response s1)"
    using u assms(2)
    by (simp add: fu_goodixfp_device_write_firmware_def fu_firmware_get_image_default_bytes_def
          and_then_def succeed_def fu_device_set_status_usb_def Let_def split: sum.splits)
  have r: "res = Inr ()"
    using assms(1) wf by (cases res) simp_all
  have wf': "fu_goodixfp_device_write_firmware p (Some fw) s
             = transmit_chunks p chunks [0..<length chunks] zeroed_response s1"
    using wf r write_chunks_transmit [of 0 chunks p zeroed_response s1] by simp
  have ok: "fst (transmit_chunks p chunks [0..<length chunks] zeroed_response s1) = Inr ()"
    using assms(1) wf' by simp
  show ?thesis
    unfolding wf'
    using transmit_trace [OF ok] update_init_trace [OF u [unfolded r]]
    by (simp add: recorded_status)
qed

text \<open>
  C10: the loop of \<open>fu_goodixfp_device_write_firmware\<close>, with its flags kept in variables
  across the turns, is the loop in which every chunk before the last is exchanged with
  end-of-package byte \<open>0x80\<close> and without waiting for a data reply, and the last
  chunk, and only that one, with end-of-package byte 0 and waiting for a data reply;
  progress \<open>(i, n)\<close> is reported after chunk \<open>i\<close> of \<open>n\<close>. In every update that
  succeeds the frames sent are the one that starts the update and then one for each
  chunk in order, carrying that end-of-package byte, and the progress reports are
  \<open>(0, n)\<close>, ..., \<open>(n - 1, n)\<close>.
\<close>

theorem write_firmware_chunk_flags:
  "write_chunks p chunks 0 False 0x80 reponse s
   = transmit_chunks p chunks [0..<length chunks] reponse s \<and>
   (fst (fu_goodixfp_device_write_firmware p (Some fw) s) = Inr () \<longrightarrow>
    (let sent = fu_chunk_array_new_from_bytes fw GX_FLASH_TRANSFER_BLOCK_SIZE;
         s' = snd (fu_goodixfp_device_write_firmware p (Some fw) s)
     in frames_sent (usb_trace s')
        = frames_sent (usb_trace s)
          @ frame p (GX_CMD_UPGRADE p) (GX_CMD_UPGRADE_INIT p) 0 []
          # map (\<lambda>i. frame p (GX_CMD_UPGRADE p) (GX_CMD_UPGRADE_DATA p)
                        (if i + 1 = length sent then 0 else 0x80) (sent ! i))
              [0..<length sent] \<and>
        progress_reported (usb_trace s')
        = progress_reported (usb_trace s) @ map (\<lambda>i. (i, length sent)) [0..<length sent]))"
proof -
  have a: "write_chunks p chunks 0 False 0x80 reponse s
           = transmit_chunks p chunks [0..<length chunks] reponse s"
    by (rule write_chunks_transmit) simp
  show ?thesis
    using a write_firmware_trace [OF _ refl, of p fw s]
    by (simp add: Let_def chunk_frame_def [abs_def])
qed

definition upgrade_replies :: "usb_reply list" where
  "upgrade_replies =
     [Wrote 0, Wrote 9, received [], received ack_frame, received [], received result_frame,
      Wrote 0, Wrote 1009, received [], received ack_frame,
      Wrote 0, Wrote 1009, received [], received ack_frame,
      Wrote 0, Wrote 10, received [], received ack_frame, received [], received result_frame]"

definition firmware_image :: "u8 list" where
  "firmware_image = replicate 2001 0x5a"

lemma image_chunks:
  "fu_chunk_array_new_from_bytes firmware_image GX_FLASH_TRANSFER_BLOCK_SIZE
   = [replicate 1000 0x5a, replicate 1000 0x5a, [0x5a]]"
  apply (simp add: firmware_image_def)
  apply (subst fu_chunk_array_new_from_bytes.simps, simp)
  apply (subst fu_chunk_array_new_from_bytes.simps, simp)
  apply (subst fu_chunk_array_new_from_bytes.simps, simp)
  apply (subst fu_chunk_array_new_from_bytes.simps, simp)
  done

lemma upgrade_run:
  "fst (fu_goodixfp_device_write_firmware framer (Some firmware_image) (plugged upgrade_replies)) = Inr ()"
  unfolding fu_goodixfp_device_write_firmware_def
  apply (simp add: image_chunks [unfolded GX_FLASH_TRANSFER_BLOCK_SIZE_def]
       fu_firmware_get_image_default_bytes_def and_then_def succeed_def fail_with_def
       fu_device_set_status_usb_def fu_goodixfp_device_update_init_def
       fu_goodixfp_device_cmd_xfer_def goodixfp_device_cmd_send_def prefix_error_def
       g_usb_device_bulk_transfer_out_def g_usb_device_bulk_transfer_in_def next_usb_reply_def
       record_usb_def plugged_def upgrade_replies_def received_def ack_frame_def result_frame_def
       frame_def framer_def Let_def zeroed_response_def uint32_le_roundtrip
       goodixfp_device_cmd_recv.simps write_chunks.simps fu_device_set_progress_full_usb_def)
  done

lemma upt_3: "[0..<3] = [0, 1, 2]"
  by (simp add: numeral_eq_Suc upt_rec)

theorem write_firmware_chunk_flags_witness:
  "fst (fu_goodixfp_device_write_firmware framer (Some firmware_image) (plugged upgrade_replies))
     = Inr () \<and>
   frames_sent (usb_trace (snd (fu_goodixfp_device_write_firmware framer (Some firmware_image)
                                  (plugged upgrade_replies))))
     = [frame framer 0x80 0x00 0 [],
        frame framer 0x80 0x01 0x80 (replicate 1000 0x5a),
        frame framer 0x80 0x01 0x80 (replicate 1000 0x5a),
        frame framer 0x80 0x01 0 [0x5a]] \<and>
   progress_reported (usb_trace (snd (fu_goodixfp_device_write_firmware framer
                                        (Some firmware_image) (plugged upgrade_replies))))
     = [(0, 3), (1, 3), (2, 3)]"
proof -
  have f: "GX_CMD_UPGRADE framer = 0x80" "GX_CMD_UPGRADE_INIT framer = 0"
    "GX_CMD_UPGRADE_DATA framer = 1"
    by (simp_all add: framer_def)
  have t: "usb_trace (plugged upgrade_replies) = []"
    by (simp add: plugged_def)
  show ?thesis
    using write_firmware_chunk_flags [of framer "[]" zeroed_response
        "plugged upgrade_replies" firmware_image] upgrade_run
    by (simp add: Let_def image_chunks [unfolded GX_FLASH_TRANSFER_BLOCK_SIZE_def] f t upt_3
          frames_sent_def progress_reported_def)
qed

subsection \<open>A version query that fails\<close>















end
